theory Spec2Isabelle
  imports Main
begin

section \<open>Strings of the host language\<close>

text \<open>
  A string of the source is a sequence of UTF-16 code units. The development covers the
  code units U+0000 .. U+00FF: a \<^typ>\<open>char\<close> is the code unit with that number, so
  \<open>CHR 0xE9\<close> is the letter e with acute accent of the status text. On this range
  indexing, \<open>length\<close>, \<open>trim\<close>, \<open>toLowerCase\<close> and the character classes of the regular
  expressions are the ones of the language standard. The byte-order mark U+FEFF lies
  outside the range, so the removal of a leading byte-order mark from the first header has
  nothing to remove here and is not modelled.
\<close>

definition isWhiteSpace :: "char \<Rightarrow> bool" where
  \<comment> \<open>the class \<open>\s\<close>, and what \<open>trim\<close> strips: tab, line feed, vertical tab, form feed,
      carriage return, space, no-break space\<close>
  "isWhiteSpace c \<longleftrightarrow> of_char c \<in> {9, 10, 11, 12, 13, 32, 160 :: nat}"

definition trim :: "string \<Rightarrow> string" where
  "trim s = rev (dropWhile isWhiteSpace (rev (dropWhile isWhiteSpace s)))"

definition lowerChar :: "char \<Rightarrow> char" where
  \<comment> \<open>A-Z, and the capital letters U+00C0 .. U+00DE except the multiplication sign U+00D7\<close>
  "lowerChar c =
     (let n = (of_char c :: nat) in
      if (65 \<le> n \<and> n \<le> 90) \<or> (192 \<le> n \<and> n \<le> 222 \<and> n \<noteq> 215) then char_of (n + 32) else c)"

definition toLowerCase :: "string \<Rightarrow> string" where
  "toLowerCase s = map lowerChar s"

definition toUpperCase :: "string \<Rightarrow> string" where
  \<comment> \<open>a-z and U+00E0 .. U+00FE except the division sign U+00F7; sharp s (U+00DF) becomes SS.
      The upper-case forms of U+00B5 and U+00FF lie outside the range covered; they are left
      unchanged, which, like their real images, are not ASCII letters.\<close>
  "toUpperCase s =
     concat (map (\<lambda>c. let n = (of_char c :: nat) in
                       if (97 \<le> n \<and> n \<le> 122) \<or> (224 \<le> n \<and> n \<le> 254 \<and> n \<noteq> 247)
                       then [char_of (n - 32)]
                       else if n = 223 then ''SS'' else [c]) s)"

definition isDigit :: "char \<Rightarrow> bool" where
  \<comment> \<open>the class \<open>\d\<close>\<close>
  "isDigit c \<longleftrightarrow> (let n = (of_char c :: nat) in 48 \<le> n \<and> n \<le> 57)"

fun splitOn :: "char \<Rightarrow> string \<Rightarrow> string \<Rightarrow> string list" where
  \<comment> \<open>\<open>s.split(sep)\<close> for a one-character separator; the second argument is the piece being read\<close>
  "splitOn sep cur [] = [cur]"
| "splitOn sep cur (c # cs) =
     (if c = sep then cur # splitOn sep [] cs else splitOn sep (cur @ [c]) cs)"

definition split :: "char \<Rightarrow> string \<Rightarrow> string list" where
  "split sep s = splitOn sep [] s"

section \<open>Data interfaces\<close>

datatype UserRole = Admin | Editor | Viewer

record User =
  user_id :: string
  user_name :: string
  user_email :: string
  user_role :: UserRole

record UserWithPassword = User +
  user_password :: "string option"

record OrderPart =
  part_number :: string
  part_isSent :: bool
  part_creationDate :: string
  part_userId :: string
  part_userName :: string
  part_notes :: "string option"

record Order =
  order_id :: string
  order_frames :: "OrderPart option"
  order_doors :: "OrderPart option"

record UploadedFile =
  file_id :: string
  file_name :: string
  file_type :: string

record ConstructionSite =
  site_id :: string
  site_name :: string
  site_generalInfo :: string
  site_generalInfoFiles :: "UploadedFile list"
  site_orders :: "Order list"

record Customer =
  customer_id :: string
  customer_name :: string
  customer_sites :: "ConstructionSite list"
  customer_notes :: string

record SpecialOption =
  option_id :: string
  option_name :: string
  option_details :: string
  option_files :: "UploadedFile list"

section \<open>Data import: the CSV parser\<close>

text \<open>
  The inner loop of \<open>parseCSV\<close> over the characters of one line. The state is the list of
  finished fields \<open>row\<close>, the field being read \<open>currentField\<close> and the flag \<open>inQuotes\<close>.
  A quote that is followed by a quote while \<open>inQuotes\<close> holds appends one quote and skips
  the next character.
\<close>

fun scanLine :: "string \<Rightarrow> string list \<Rightarrow> string \<Rightarrow> bool \<Rightarrow> string list \<times> string \<times> bool" where
  "scanLine [] row currentField inQuotes = (row, currentField, inQuotes)"
| "scanLine (c # cs) row currentField inQuotes =
     (if c = CHR 0x22 then
        (case cs of
           d # ds \<Rightarrow>
             if inQuotes \<and> d = CHR 0x22 then scanLine ds row (currentField @ [CHR 0x22]) inQuotes
             else scanLine cs row currentField (\<not> inQuotes)
         | [] \<Rightarrow> scanLine cs row currentField (\<not> inQuotes))
      else if c = CHR '','' \<and> \<not> inQuotes then scanLine cs (row @ [currentField]) [] inQuotes
      else scanLine cs row (currentField @ [c]) inQuotes)"

definition splitFields :: "string \<Rightarrow> string list" where
  \<comment> \<open>the loop from the empty state, followed by \<open>row.push(currentField)\<close>\<close>
  "splitFields line = (case scanLine line [] [] False of (row, currentField, _) \<Rightarrow> row @ [currentField])"

text \<open>
  A row object is the map of its own properties. It is a plain object, so the assignment
  \<open>rowObject[header] = value\<close> for the header \<open>__proto__\<close> reaches the setter it inherits,
  which ignores a string: no property is created for a column of that name.
\<close>

type_synonym Row = "string \<rightharpoonup> string"

fun rowObjectFrom :: "nat \<Rightarrow> string list \<Rightarrow> string list \<Rightarrow> Row \<Rightarrow> Row" where
  \<comment> \<open>\<open>headers.forEach((header, index) => rowObject[header] = row[index] ? row[index].trim() : '')\<close>,
      from position \<open>index\<close> on: a later header of the same name overwrites an earlier one\<close>
  "rowObjectFrom index [] row rowObject = rowObject"
| "rowObjectFrom index (header # headers) row rowObject =
     rowObjectFrom (Suc index) headers row
       (if header = ''__proto__'' then rowObject
        else rowObject(header \<mapsto>
               (if index < length row \<and> row ! index \<noteq> [] then trim (row ! index) else [])))"

definition rowObjectOf :: "string list \<Rightarrow> string list \<Rightarrow> Row" where
  "rowObjectOf headers row = rowObjectFrom 0 headers row Map.empty"

definition parseHeaders :: "string \<Rightarrow> string list" where
  "parseHeaders line = map trim (split CHR '','' line)"

definition parseCSV :: "string \<Rightarrow> Row list" where
  "parseCSV csvText =
     (case split CHR 0x0A (filter (\<lambda>c. c \<noteq> CHR 0x0D) csvText) of
        [] \<Rightarrow> []
      | line0 # lines \<Rightarrow>
          let headers = parseHeaders line0
          in map (\<lambda>line. rowObjectOf headers (splitFields line))
                 (filter (\<lambda>line. trim line \<noteq> []) lines))"

section \<open>Data import: dates\<close>

text \<open>
  A \<open>Date\<close> is its time value. The development counts it in whole seconds of local time
  from 1970-01-01T00:00:00 (the parser never produces milliseconds), and reads local time
  without daylight-saving gaps, so that the components a date is built from and the
  components read back from it are related by calendar normalisation alone. The functions
  below are \<open>MakeDay\<close>, \<open>MakeTime\<close>, \<open>YearFromTime\<close>, \<open>MonthFromTime\<close> and \<open>DateFromTime\<close>
  of the language standard for the proleptic Gregorian calendar, in closed form.
\<close>

type_synonym Date = int

definition daysFromCivil :: "int \<Rightarrow> int \<Rightarrow> int \<Rightarrow> int" where
  \<comment> \<open>day number of year \<open>y\<close>, month \<open>m\<close> (1 .. 12), day \<open>d\<close>; day 0 is 1970-01-01\<close>
  "daysFromCivil y m d =
     (let y' = (if m \<le> 2 then y - 1 else y);
          era = y' div 400;
          yoe = y' - era * 400;
          doy = (153 * (if m > 2 then m - 3 else m + 9) + 2) div 5 + d - 1;
          doe = yoe * 365 + yoe div 4 - yoe div 100 + doy
      in era * 146097 + doe - 719468)"

definition civilFromDays :: "int \<Rightarrow> int \<times> int \<times> int" where
  \<comment> \<open>year, month (1 .. 12) and day of the month of a day number\<close>
  "civilFromDays z =
     (let z' = z + 719468;
          era = z' div 146097;
          doe = z' - era * 146097;
          yoe = (doe - doe div 1460 + doe div 36524 - doe div 146096) div 365;
          doy = doe - (365 * yoe + yoe div 4 - yoe div 100);
          mp = (5 * doy + 2) div 153;
          d = doy - (153 * mp + 2) div 5 + 1;
          m = (if mp < 10 then mp + 3 else mp - 9)
      in (if m \<le> 2 then yoe + era * 400 + 1 else yoe + era * 400, m, d))"

definition newDate :: "int \<Rightarrow> int \<Rightarrow> int \<Rightarrow> int \<Rightarrow> int \<Rightarrow> int \<Rightarrow> Date" where
  \<comment> \<open>\<open>new Date(year, month, day, hours, minutes, seconds)\<close>, month counted from 0; a year
      from 0 to 99 stands for 1900 + year; components out of range carry over\<close>
  "newDate year month day hours minutes seconds =
     (let yr = (if 0 \<le> year \<and> year \<le> 99 then 1900 + year else year);
          ym = yr + month div 12;
          mn = month mod 12
      in (daysFromCivil ym (mn + 1) 1 + day - 1) * 86400 + hours * 3600 + minutes * 60 + seconds)"

definition getFullYear :: "Date \<Rightarrow> int" where
  "getFullYear t = fst (civilFromDays (t div 86400))"

definition getMonth :: "Date \<Rightarrow> int" where
  "getMonth t = fst (snd (civilFromDays (t div 86400))) - 1"

definition getDate :: "Date \<Rightarrow> int" where
  "getDate t = snd (snd (civilFromDays (t div 86400)))"

definition getHours :: "Date \<Rightarrow> int" where
  "getHours t = (t mod 86400) div 3600"

definition getMinutes :: "Date \<Rightarrow> int" where
  "getMinutes t = (t mod 3600) div 60"

definition getSeconds :: "Date \<Rightarrow> int" where
  "getSeconds t = t mod 60"

text \<open>
  What the import takes from the host: the identifiers \<open>self.crypto.randomUUID()\<close> returns,
  the reading \<open>new Date().toISOString()\<close> of the clock (both by the number of host calls
  made before), the rendering \<open>toISOString\<close> of a local time, which depends on the time
  zone, and the host's own date parser \<open>new Date(dateString)\<close>, whose result is \<open>None\<close>
  where the host gives an invalid date.
\<close>

record Host =
  randomUUID :: "nat \<Rightarrow> string"
  nowISOString :: "nat \<Rightarrow> string"
  toISOString :: "Date \<Rightarrow> string"
  dateParse :: "string \<Rightarrow> Date option"

fun matches :: "string \<Rightarrow> string \<Rightarrow> bool" where
  \<comment> \<open>a fixed-length pattern: \<open>d\<close> stands for \<open>\d\<close>, any other character for itself\<close>
  "matches [] [] = True"
| "matches (p # ps) (c # cs) = ((if p = CHR ''d'' then isDigit c else c = p) \<and> matches ps cs)"
| "matches _ _ = False"

definition parseInt :: "string \<Rightarrow> int" where
  \<comment> \<open>\<open>parseInt(s, 10)\<close> on a string of decimal digits\<close>
  "parseInt s = foldl (\<lambda>n c. 10 * n + (int (of_char c) - 48)) 0 s"

definition parseFrenchDateString :: "Host \<Rightarrow> string \<Rightarrow> Date option" where
  "parseFrenchDateString h dateString =
     (if dateString = [] then None
      else
        let cleanedDateString = remove1 CHR '','' dateString;
            withTime = matches ''dd/dd/dddd dd:dd:dd'' cleanedDateString
        in if \<not> (matches ''dd/dd/dddd'' cleanedDateString \<or> withTime) then dateParse h dateString
           else
             let day = parseInt (take 2 cleanedDateString);
                 month = parseInt (take 2 (drop 3 cleanedDateString));
                 year = parseInt (take 4 (drop 6 cleanedDateString));
                 hours = (if withTime then parseInt (take 2 (drop 11 cleanedDateString)) else 0);
                 minutes = (if withTime then parseInt (take 2 (drop 14 cleanedDateString)) else 0);
                 seconds = (if withTime then parseInt (take 2 (drop 17 cleanedDateString)) else 0);
                 date = newDate year (month - 1) day hours minutes seconds
             in if getFullYear date \<noteq> year \<or> getMonth date \<noteq> month - 1 \<or> getDate date \<noteq> day
                then None else Some date)"

section \<open>The mock database\<close>

text \<open>
  The module-level arrays \<open>users\<close>, \<open>customers\<close> and \<open>specialOptions\<close>, the calls of
  \<open>localStorage.setItem\<close> made by \<open>saveUsers\<close> and \<open>saveCustomers\<close> (latest last), and the
  number of calls made to the host for an identifier or for the current time.
\<close>

datatype Write = SaveCustomers "Customer list" | SaveUsers "UserWithPassword list"

record State =
  users :: "UserWithPassword list"
  customers :: "Customer list"
  specialOptions :: "SpecialOption list"
  writes :: "Write list"
  calls :: nat

datatype Error =
    NameExists \<comment> \<open>a user of this name exists already\<close>
  | EmailExists \<comment> \<open>a user of this email exists already\<close>
  | EmptyOrMalformedFile \<comment> \<open>the CSV file is empty or malformed\<close>

definition sameText :: "string \<Rightarrow> string \<Rightarrow> bool" where
  \<comment> \<open>\<open>a.toLowerCase() === b.toLowerCase()\<close>\<close>
  "sameText a b \<longleftrightarrow> toLowerCase a = toLowerCase b"

definition saveUsers :: "State \<Rightarrow> State" where
  "saveUsers st = st\<lparr>writes := writes st @ [SaveUsers (users st)]\<rparr>"

definition saveCustomers :: "State \<Rightarrow> State" where
  "saveCustomers st = st\<lparr>writes := writes st @ [SaveCustomers (customers st)]\<rparr>"

definition withoutPassword :: "UserWithPassword \<Rightarrow> User" where
  "withoutPassword u = User.truncate u"

definition pushUser :: "Host \<Rightarrow> string \<Rightarrow> string \<Rightarrow> string \<Rightarrow> UserRole \<Rightarrow> State \<Rightarrow> UserWithPassword \<times> State" where
  \<comment> \<open>builds the user with a fresh identifier and appends it to \<open>users\<close>\<close>
  "pushUser h name email password role st =
     (let newUser = \<lparr>user_id = randomUUID h (calls st), user_name = name, user_email = email,
                      user_role = role, user_password = Some password\<rparr>
      in (newUser, st\<lparr>users := users st @ [newUser], calls := Suc (calls st)\<rparr>))"

definition addUser :: "Host \<Rightarrow> string \<Rightarrow> string \<Rightarrow> string \<Rightarrow> UserRole \<Rightarrow> State \<Rightarrow> (Error + User) \<times> State" where
  "addUser h name email password role st =
     (if list_ex (\<lambda>u. sameText (user_name u) name) (users st) then (Inl NameExists, st)
      else if list_ex (\<lambda>u. sameText (user_email u) email) (users st) then (Inl EmailExists, st)
      else case pushUser h name email password role st of
             (newUser, st') \<Rightarrow> (Inr (withoutPassword newUser), saveUsers st'))"

definition signup :: "Host \<Rightarrow> string \<Rightarrow> string \<Rightarrow> string \<Rightarrow> State \<Rightarrow> (Error + User) \<times> State" where
  "signup h name email password_param st =
     (if list_ex (\<lambda>u. sameText (user_name u) name) (users st) then (Inl NameExists, st)
      else if list_ex (\<lambda>u. sameText (user_email u) email) (users st) then (Inl EmailExists, st)
      else case pushUser h name email password_param Viewer st of
             (newUser, st') \<Rightarrow> (Inr (withoutPassword newUser), saveUsers st'))"

section \<open>Data import: merging the rows\<close>

text \<open>
  A field of a row is \<open>None\<close> (\<open>undefined\<close>) where the header has no such column. The import
  tests fields for truthiness, which a string passes when it is not empty, and reads a
  field either as \<open>field || ''\<close> or after such a test; \<open>orEmpty\<close> is its value in both cases.
\<close>

definition truthy :: "string option \<Rightarrow> bool" where
  "truthy v \<longleftrightarrow> (case v of None \<Rightarrow> False | Some s \<Rightarrow> s \<noteq> [])"

definition orEmpty :: "string option \<Rightarrow> string" where
  "orEmpty v = (case v of None \<Rightarrow> [] | Some s \<Rightarrow> s)"

fun findIndex :: "('a \<Rightarrow> bool) \<Rightarrow> 'a list \<Rightarrow> nat option" where
  \<comment> \<open>the position of the element \<open>xs.find(p)\<close> returns, which the code then updates in place\<close>
  "findIndex p [] = None"
| "findIndex p (x # xs) = (if p x then Some 0 else map_option Suc (findIndex p xs))"

definition roleFor :: "string option \<Rightarrow> UserRole" where
  "roleFor userRole =
     (let providedRole = map_option trim userRole in
      if \<not> truthy providedRole then Viewer
      else
        let formattedRole = toUpperCase (take 1 (orEmpty providedRole))
                              @ toLowerCase (drop 1 (orEmpty providedRole))
        in if formattedRole = ''Admin'' then Admin
           else if formattedRole = ''Editor'' then Editor
           else if formattedRole = ''Viewer'' then Viewer
           else Viewer)"

definition emailFor :: "string \<Rightarrow> string" where
  "emailFor name =
     map (\<lambda>c. if isWhiteSpace c then CHR ''.'' else c) (toLowerCase name) @ ''@example.com''"

definition resolveUser :: "Host \<Rightarrow> Row \<Rightarrow> State \<Rightarrow> UserWithPassword option \<times> State" where
  \<comment> \<open>the variable \<open>user\<close> after the block on \<open>OrderAssignedUser\<close>\<close>
  "resolveUser h row st =
     (let OrderAssignedUser = row ''OrderAssignedUser'' in
      if \<not> truthy OrderAssignedUser then (None, st)
      else case find (\<lambda>u. sameText (user_name u) (orEmpty OrderAssignedUser)) (users st) of
             Some user \<Rightarrow> (Some user, st)
           | None \<Rightarrow>
               (case pushUser h (orEmpty OrderAssignedUser) (emailFor (orEmpty OrderAssignedUser))
                       ''password'' (roleFor (row ''UserRole'')) st of
                  (newUser, st') \<Rightarrow> (Some newUser, st')))"

definition updateCustomer :: "nat \<Rightarrow> (Customer \<Rightarrow> Customer) \<Rightarrow> State \<Rightarrow> State" where
  "updateCustomer i f st = st\<lparr>customers := (customers st)[i := f (customers st ! i)]\<rparr>"

definition updateSite :: "nat \<Rightarrow> nat \<Rightarrow> (ConstructionSite \<Rightarrow> ConstructionSite) \<Rightarrow> State \<Rightarrow> State" where
  "updateSite i j f st =
     updateCustomer i (\<lambda>c. c\<lparr>customer_sites := (customer_sites c)[j := f (customer_sites c ! j)]\<rparr>) st"

definition resolveCustomer :: "Host \<Rightarrow> Row \<Rightarrow> State \<Rightarrow> nat \<times> State" where
  \<comment> \<open>the position in \<open>customers\<close> of the variable \<open>customer\<close>\<close>
  "resolveCustomer h row st =
     (let CustomerName = row ''CustomerName''; CustomerNotes = row ''CustomerNotes'' in
      case findIndex (\<lambda>c. sameText (customer_name c) (orEmpty CustomerName)) (customers st) of
        None \<Rightarrow>
          (length (customers st),
           st\<lparr>customers := customers st @
                 [\<lparr>customer_id = randomUUID h (calls st), customer_name = orEmpty CustomerName,
                   customer_sites = [], customer_notes = orEmpty CustomerNotes\<rparr>],
              calls := Suc (calls st)\<rparr>)
      | Some i \<Rightarrow>
          (i, if truthy CustomerNotes \<and> customer_notes (customers st ! i) = []
              then updateCustomer i (\<lambda>c. c\<lparr>customer_notes := orEmpty CustomerNotes\<rparr>) st
              else st))"

definition resolveSite :: "Host \<Rightarrow> Row \<Rightarrow> nat \<Rightarrow> State \<Rightarrow> nat \<times> State" where
  \<comment> \<open>the position in \<open>customer.sites\<close> of the variable \<open>site\<close>\<close>
  "resolveSite h row i st =
     (let SiteName = row ''SiteName''; SiteGeneralInfo = row ''SiteGeneralInfo'';
          sites = customer_sites (customers st ! i) in
      case findIndex (\<lambda>s. sameText (site_name s) (orEmpty SiteName)) sites of
        None \<Rightarrow>
          (length sites,
           (updateCustomer i (\<lambda>c. c\<lparr>customer_sites := customer_sites c @
                 [\<lparr>site_id = randomUUID h (calls st), site_name = orEmpty SiteName,
                   site_generalInfo = orEmpty SiteGeneralInfo, site_generalInfoFiles = [],
                   site_orders = []\<rparr>]\<rparr>) st)\<lparr>calls := Suc (calls st)\<rparr>)
      | Some j \<Rightarrow>
          (j, if truthy SiteGeneralInfo \<and> site_generalInfo (sites ! j) = []
              then updateSite i j (\<lambda>s. s\<lparr>site_generalInfo := orEmpty SiteGeneralInfo\<rparr>) st
              else st))"

datatype PartType = frames | doors

definition partTypeOf :: "string \<Rightarrow> PartType option" where
  "partTypeOf OrderPart =
     (if toLowerCase OrderPart = ''huisseries'' then Some frames
      else if toLowerCase OrderPart = ''portes'' then Some doors
      else None)"

definition partOf :: "PartType \<Rightarrow> Order \<Rightarrow> OrderPart option" where
  \<comment> \<open>the slot \<open>partType\<close> of an order\<close>
  "partOf partType order =
     (case partType of frames \<Rightarrow> order_frames order | doors \<Rightarrow> order_doors order)"

definition orderExists :: "PartType \<Rightarrow> string \<Rightarrow> Order list \<Rightarrow> bool" where
  "orderExists partType OrderNumber orders =
     list_ex (\<lambda>order. case partOf partType order of None \<Rightarrow> False
                  | Some part \<Rightarrow> part_number part = OrderNumber) orders"

definition creationDateISO :: "Host \<Rightarrow> Row \<Rightarrow> State \<Rightarrow> string \<times> State" where
  \<comment> \<open>the parsed date where there is one, the current time otherwise\<close>
  "creationDateISO h row st =
     (let OrderCreationDate = row ''OrderCreationDate'';
          parsedDate = (if truthy OrderCreationDate
                        then parseFrenchDateString h (orEmpty OrderCreationDate) else None)
      in case parsedDate of
           Some date \<Rightarrow> (toISOString h date, st)
         | None \<Rightarrow> (nowISOString h (calls st), st\<lparr>calls := Suc (calls st)\<rparr>))"

definition pushOrder :: "Host \<Rightarrow> Row \<Rightarrow> UserWithPassword \<Rightarrow> PartType \<Rightarrow> nat \<Rightarrow> nat \<Rightarrow> State \<Rightarrow> State" where
  \<comment> \<open>builds \<open>newOrderPart\<close> and \<open>newOrder\<close> and appends the order to the orders of the site\<close>
  "pushOrder h row user partType i j st =
     (case creationDateISO h row st of
        (creationDate, st') \<Rightarrow>
          let newOrderPart =
                \<lparr>part_number = orEmpty (row ''OrderNumber''),
                 part_isSent = (row ''OrderStatus'' = Some (''Envoy'' @ [CHR 0xE9, CHR ''e''])),
                 part_creationDate = creationDate,
                 part_userId = user_id user,
                 part_userName = user_name user,
                 part_notes = Some (orEmpty (row ''OrderNotes''))\<rparr>;
              newOrder =
                \<lparr>order_id = randomUUID h (calls st'),
                 order_frames = (if partType = frames then Some newOrderPart else None),
                 order_doors = (if partType = doors then Some newOrderPart else None)\<rparr>
          in (updateSite i j (\<lambda>s. s\<lparr>site_orders := site_orders s @ [newOrder]\<rparr>) st')
               \<lparr>calls := Suc (calls st')\<rparr>)"

definition processRow :: "Host \<Rightarrow> Row \<Rightarrow> State \<Rightarrow> State" where
  \<comment> \<open>the body of \<open>parsedData.forEach\<close>\<close>
  "processRow h row st =
     (if \<not> truthy (row ''CustomerName'') then st
      else
        (case resolveUser h row st of (user, st1) \<Rightarrow>
          (case resolveCustomer h row st1 of (i, st2) \<Rightarrow>
            if \<not> truthy (row ''SiteName'') then st2
            else
              (case resolveSite h row i st2 of (j, st3) \<Rightarrow>
                if \<not> truthy (row ''OrderPart'') \<or> \<not> truthy (row ''OrderNumber'') then st3
                else
                  (case user of
                     None \<Rightarrow> st3
                   | Some user \<Rightarrow>
                       (case partTypeOf (orEmpty (row ''OrderPart'')) of
                          None \<Rightarrow> st3
                        | Some partType \<Rightarrow>
                            if orderExists partType (orEmpty (row ''OrderNumber''))
                                 (site_orders (customer_sites (customers st3 ! i) ! j))
                            then st3
                            else pushOrder h row user partType i j st3))))))"

fun importRows :: "Host \<Rightarrow> Row list \<Rightarrow> State \<Rightarrow> State" where
  "importRows h [] st = st"
| "importRows h (row # rows) st = importRows h rows (processRow h row st)"

record ImportResult =
  result_customers :: "Customer list"
  result_users :: "User list"

definition importData :: "Host \<Rightarrow> string \<Rightarrow> State \<Rightarrow> (Error + ImportResult) \<times> State" where
  "importData h csvString st =
     (let parsedData = parseCSV csvString in
      if parsedData = [] then (Inl EmptyOrMalformedFile, st)
      else
        let st' = saveUsers (saveCustomers (importRows h parsedData st))
        in (Inr \<lparr>result_customers = customers st',
                 result_users = map withoutPassword (users st')\<rparr>, st'))"

section \<open>Sample data\<close>

text \<open>
  The three users the module seeds when no user is stored, a host whose identifiers and
  clock readings are told apart by the call number, and the fields of the examples.
\<close>

definition seedUsers :: "UserWithPassword list" where
  "seedUsers =
     [\<lparr>user_id = ''admin-seed-1'', user_name = ''taoufik'', user_email = ''taoufik@example.com'',
       user_role = Admin, user_password = Some ''123456789''\<rparr>,
      \<lparr>user_id = ''editor-1'', user_name = ''Editor'', user_email = ''editor@example.com'',
       user_role = Editor, user_password = Some ''password''\<rparr>,
      \<lparr>user_id = ''viewer-1'', user_name = ''Viewer'', user_email = ''viewer@example.com'',
       user_role = Viewer, user_password = Some ''password''\<rparr>]"

definition seedState :: State where
  "seedState = \<lparr>users = seedUsers, customers = [], specialOptions = [], writes = [], calls = 0\<rparr>"

definition sampleHost :: Host where
  "sampleHost =
     \<lparr>randomUUID = (\<lambda>n. ''uuid-'' @ replicate n CHR ''x''),
      nowISOString = (\<lambda>n. ''now-'' @ replicate n CHR ''x''),
      toISOString = (\<lambda>t. ''parsed''),
      dateParse = (\<lambda>s. None)\<rparr>"

definition quotedField :: string where
  \<comment> \<open>the eight characters \<open>"a,b""c"\<close>\<close>
  "quotedField = [CHR 0x22] @ ''a,b'' @ [CHR 0x22, CHR 0x22] @ ''c'' @ [CHR 0x22]"

definition quotedValue :: string where
  \<comment> \<open>the five characters \<open>a,b"c\<close>\<close>
  "quotedValue = ''a,b'' @ [CHR 0x22] @ ''c''"

definition sent :: string where
  \<comment> \<open>the status text of an order that has been sent\<close>
  "sent = ''Envoy'' @ [CHR 0xE9] @ ''e''"

definition sampleCsv3 :: string where
  \<comment> \<open>a header and one data line, whose second field is the quoted field\<close>
  "sampleCsv3 =
     ''CustomerName,CustomerNotes,SiteName'' @ [CHR 0x0A] @ ''ACME,'' @ quotedField @ '',Lyon''"

definition sampleCsv3dup :: string where
  \<comment> \<open>two columns of the same name; the quoted field is in the first\<close>
  "sampleCsv3dup = ''A,A'' @ [CHR 0x0A] @ quotedField @ '',z''"

definition sampleCsv3short :: string where
  \<comment> \<open>one column; the quoted field is the second field of the data line\<close>
  "sampleCsv3short = ''A'' @ [CHR 0x0A] @ ''x,'' @ quotedField"

definition sampleCsv3proto :: string where
  \<comment> \<open>the quoted field is in a column named \<open>__proto__\<close>\<close>
  "sampleCsv3proto = ''__proto__,B'' @ [CHR 0x0A] @ quotedField @ '',z''"

section \<open>Notions used in the statements and proofs\<close>

text \<open>
  The import only appends to its arrays and fills empty text fields. \<open>listExt R xs ys\<close>:
  the list \<open>ys\<close> continues \<open>xs\<close>, position by position related by \<open>R\<close>.
\<close>

fun listExt :: "('a \<Rightarrow> 'a \<Rightarrow> bool) \<Rightarrow> 'a list \<Rightarrow> 'a list \<Rightarrow> bool" where
  "listExt R [] ys = True"
| "listExt R (x # xs) [] = False"
| "listExt R (x # xs) (y # ys) = (R x y \<and> listExt R xs ys)"

definition siteExt :: "ConstructionSite \<Rightarrow> ConstructionSite \<Rightarrow> bool" where
  "siteExt s s' \<longleftrightarrow>
     site_name s' = site_name s \<and>
     (site_generalInfo s \<noteq> [] \<longrightarrow> site_generalInfo s' = site_generalInfo s) \<and>
     (\<exists>more. site_orders s' = site_orders s @ more)"

definition customerExt :: "Customer \<Rightarrow> Customer \<Rightarrow> bool" where
  "customerExt c c' \<longleftrightarrow>
     customer_name c' = customer_name c \<and>
     (customer_notes c \<noteq> [] \<longrightarrow> customer_notes c' = customer_notes c) \<and>
     listExt siteExt (customer_sites c) (customer_sites c')"

definition stateExt :: "State \<Rightarrow> State \<Rightarrow> bool" where
  "stateExt st st' \<longleftrightarrow>
     (\<exists>more. users st' = users st @ more) \<and> listExt customerExt (customers st) (customers st')"

text \<open>
  A row is absorbed by a state when every test of the row body that leads to a change
  fails there: its user, customer and site exist, texts it would fill are filled, and its
  order exists or is not asked for.
\<close>

definition siteAbsorbed :: "Row \<Rightarrow> ConstructionSite \<Rightarrow> bool" where
  "siteAbsorbed row s \<longleftrightarrow>
     (truthy (row ''SiteGeneralInfo'') \<longrightarrow> site_generalInfo s \<noteq> []) \<and>
     (\<not> truthy (row ''OrderPart'') \<or> \<not> truthy (row ''OrderNumber'') \<or>
      \<not> truthy (row ''OrderAssignedUser'') \<or>
      (case partTypeOf (orEmpty (row ''OrderPart'')) of
         None \<Rightarrow> True
       | Some partType \<Rightarrow> orderExists partType (orEmpty (row ''OrderNumber'')) (site_orders s)))"

definition customerAbsorbed :: "Row \<Rightarrow> Customer \<Rightarrow> bool" where
  "customerAbsorbed row c \<longleftrightarrow>
     (truthy (row ''CustomerNotes'') \<longrightarrow> customer_notes c \<noteq> []) \<and>
     (\<not> truthy (row ''SiteName'') \<or>
      (case findIndex (\<lambda>s. sameText (site_name s) (orEmpty (row ''SiteName''))) (customer_sites c) of
         None \<Rightarrow> False
       | Some j \<Rightarrow> siteAbsorbed row (customer_sites c ! j)))"

definition absorbed :: "Row \<Rightarrow> State \<Rightarrow> bool" where
  "absorbed row st \<longleftrightarrow>
     \<not> truthy (row ''CustomerName'') \<or>
     ((truthy (row ''OrderAssignedUser'') \<longrightarrow>
         list_ex (\<lambda>u. sameText (user_name u) (orEmpty (row ''OrderAssignedUser''))) (users st)) \<and>
      (case findIndex (\<lambda>c. sameText (customer_name c) (orEmpty (row ''CustomerName''))) (customers st) of
         None \<Rightarrow> False
       | Some i \<Rightarrow> customerAbsorbed row (customers st ! i)))"

text \<open>
  The order built for a row: the part sits in the slot of the part type, the other slot is
  null, the number is the one of the row and the part counts as sent exactly when the
  status text of the row is the text \<open>sent\<close>.
\<close>

definition newOrderFor :: "Row \<Rightarrow> PartType \<Rightarrow> Order \<Rightarrow> bool" where
  "newOrderFor row partType order \<longleftrightarrow>
     (\<exists>part. partOf partType order = Some part \<and>
        part_number part = orEmpty (row ''OrderNumber'') \<and>
        part_isSent part = (row ''OrderStatus'' = Some sent) \<and>
        part_notes part = Some (orEmpty (row ''OrderNotes''))) \<and>
     (partType = frames \<longrightarrow> order_doors order = None) \<and>
     (partType = doors \<longrightarrow> order_frames order = None)"

text \<open>
  The order lists of a state, by customer and site.
\<close>

definition ordersBySite :: "State \<Rightarrow> Order list list list" where
  "ordersBySite st = map (\<lambda>c. map site_orders (customer_sites c)) (customers st)"

text \<open>
  The orders of the site a row resolves to: the first customer of its name, up to case,
  and the first site of its name there; no orders where either is missing. \<open>allOrders\<close>
  lists the orders of all sites.
\<close>

definition targetOrders :: "Row \<Rightarrow> State \<Rightarrow> Order list" where
  "targetOrders row st =
     (case findIndex (\<lambda>c. sameText (customer_name c) (orEmpty (row ''CustomerName''))) (customers st) of
        None \<Rightarrow> []
      | Some i \<Rightarrow>
          (case findIndex (\<lambda>s. sameText (site_name s) (orEmpty (row ''SiteName'')))
                  (customer_sites (customers st ! i)) of
             None \<Rightarrow> []
           | Some j \<Rightarrow> site_orders (customer_sites (customers st ! i) ! j)))"

definition ordersOfCustomer :: "Customer \<Rightarrow> Order list" where
  "ordersOfCustomer c = concat (map site_orders (customer_sites c))"

definition allOrders :: "State \<Rightarrow> Order list" where
  "allOrders st = concat (map ordersOfCustomer (customers st))"

text \<open>
  Names and emails of users, compared up to case.
\<close>

definition nameTaken :: "string \<Rightarrow> UserWithPassword list \<Rightarrow> bool" where
  "nameTaken name us = list_ex (\<lambda>u. sameText (user_name u) name) us"

definition emailTaken :: "string \<Rightarrow> UserWithPassword list \<Rightarrow> bool" where
  "emailTaken email us = list_ex (\<lambda>u. sameText (user_email u) email) us"

definition namesUnique :: "UserWithPassword list \<Rightarrow> bool" where
  "namesUnique us = distinct (map (\<lambda>u. toLowerCase (user_name u)) us)"

definition emailsUnique :: "UserWithPassword list \<Rightarrow> bool" where
  "emailsUnique us = distinct (map (\<lambda>u. toLowerCase (user_email u)) us)"

text \<open>
  The first character in upper case, the rest in lower case.
\<close>

definition pascalCase :: "string \<Rightarrow> string" where
  "pascalCase s = toUpperCase (take 1 s) @ toLowerCase (drop 1 s)"

text \<open>
  Rows, a state and files of the examples.
\<close>

definition sampleRow7 :: Row where
  "sampleRow7 = [''CustomerName'' \<mapsto> [], ''OrderAssignedUser'' \<mapsto> ''Bob'']"

definition sampleRow7b :: Row where
  "sampleRow7b = [''CustomerName'' \<mapsto> ''ACME'', ''OrderAssignedUser'' \<mapsto> ''Jean Dupont'',
                  ''UserRole'' \<mapsto> ''eDITOR'']"

definition sampleRow8 :: Row where
  "sampleRow8 = [''CustomerName'' \<mapsto> ''ACME'', ''SiteName'' \<mapsto> ''Lyon'',
                 ''OrderAssignedUser'' \<mapsto> ''Editor'', ''OrderPart'' \<mapsto> ''Huisseries'',
                 ''OrderNumber'' \<mapsto> ''F-001'', ''OrderStatus'' \<mapsto> sent]"

definition sampleRow8b :: Row where
  "sampleRow8b = [''CustomerName'' \<mapsto> ''ACME'', ''SiteName'' \<mapsto> ''Lyon'',
                 ''OrderAssignedUser'' \<mapsto> ''Editor'', ''OrderPart'' \<mapsto> ''Fenetres'',
                 ''OrderNumber'' \<mapsto> ''F-002'', ''OrderStatus'' \<mapsto> sent]"

definition sampleState9 :: State where
  "sampleState9 =
     \<lparr>users = seedUsers,
      customers =
        [\<lparr>customer_id = ''c-1'', customer_name = ''ACME'',
          customer_sites =
            [\<lparr>site_id = ''s-1'', site_name = ''Lyon'', site_generalInfo = ''second floor'',
              site_generalInfoFiles = [], site_orders = []\<rparr>],
          customer_notes = ''pays late''\<rparr>],
      specialOptions = [], writes = [], calls = 0\<rparr>"

definition sampleCsv9 :: string where
  "sampleCsv9 = ''CustomerName,CustomerNotes,SiteName,SiteGeneralInfo'' @ [CHR 0x0A]
                  @ ''acme,new notes,LYON,new info''"

definition sampleCsv2 :: string where
  "sampleCsv2 = ''CustomerName,OrderAssignedUser'' @ [CHR 0x0A] @ ''ACME,a b'' @ [CHR 0x0A] @ ''ACME,a.b''"

section \<open>Rows that are skipped, and the failure of the import\<close>

text \<open>
  C5. A row whose \<open>CustomerName\<close> is empty (or absent) leaves the whole state as it is:
  users, customers with their sites and orders, special options, and the stored copies.
\<close>

theorem processRow_empty_CustomerName:
  "\<not> truthy (row ''CustomerName'') \<Longrightarrow> processRow h row st = st"
  by (simp add: processRow_def)

theorem processRow_empty_CustomerName_witness:
  "\<not> truthy ([''CustomerName'' \<mapsto> [], ''OrderAssignedUser'' \<mapsto> ''Bob''] ''CustomerName'') \<and>
   processRow sampleHost [''CustomerName'' \<mapsto> [], ''OrderAssignedUser'' \<mapsto> ''Bob''] seedState
     = seedState"
  using processRow_empty_CustomerName
          [of "[''CustomerName'' \<mapsto> [], ''OrderAssignedUser'' \<mapsto> ''Bob'']" sampleHost seedState]
  by (simp add: truthy_def)

lemma parseCSV_Nil: "parseCSV [] = []"
  by (simp add: parseCSV_def split_def)

lemma parseCSV_sampleCsv3: "parseCSV sampleCsv3 \<noteq> []"
  by code_simp

text \<open>
  C6. The import fails with the error of an empty or malformed file exactly when the
  parser returns no row; it then changes nothing. When the parser returns a row, the
  import returns its result.
\<close>

theorem importData_throws_iff:
  "(fst (importData h csvString st) = Inl EmptyOrMalformedFile \<longleftrightarrow> parseCSV csvString = []) \<and>
   (parseCSV csvString = [] \<longrightarrow> importData h csvString st = (Inl EmptyOrMalformedFile, st)) \<and>
   (parseCSV csvString \<noteq> [] \<longrightarrow>
      (\<exists>result. fst (importData h csvString st) = Inr result) \<and>
      (\<forall>e. fst (importData h csvString st) \<noteq> Inl e))"
  by (simp add: importData_def Let_def)

theorem importData_throws_iff_witness:
  "parseCSV [] = [] \<and> importData sampleHost [] seedState = (Inl EmptyOrMalformedFile, seedState) \<and>
   parseCSV sampleCsv3 \<noteq> [] \<and> (\<exists>result. fst (importData sampleHost sampleCsv3 seedState) = Inr result)"
  using importData_throws_iff [of sampleHost "[]" seedState]
        importData_throws_iff [of sampleHost sampleCsv3 seedState]
        parseCSV_Nil parseCSV_sampleCsv3
  by simp

text \<open>
  C10. When the import fails, the users, the customers and the special options are what
  they were before the call and nothing has been written to the store: the state is
  unchanged.
\<close>

theorem importData_error_atomic:
  assumes "fst (importData h csvString st) = Inl e"
  shows "users (snd (importData h csvString st)) = users st \<and>
         customers (snd (importData h csvString st)) = customers st \<and>
         specialOptions (snd (importData h csvString st)) = specialOptions st \<and>
         writes (snd (importData h csvString st)) = writes st \<and>
         snd (importData h csvString st) = st"
  using assms by (simp add: importData_def Let_def split: if_splits)

theorem importData_error_atomic_witness:
  "fst (importData sampleHost [] seedState) = Inl EmptyOrMalformedFile \<and>
   snd (importData sampleHost [] seedState) = seedState"
proof -
  have e: "fst (importData sampleHost [] seedState) = Inl EmptyOrMalformedFile"
    by (simp add: importData_def parseCSV_Nil)
  from importData_error_atomic [OF e] e show ?thesis by simp
qed

section \<open>Dates\<close>

text \<open>
  C4. The text \<open>23/10/2025, 14:30:00\<close> parses to the local time 23 October 2025, 14:30:00.
  The text \<open>31/02/2025\<close> matches the strict pattern, the date built from its components
  is 3 March 2025, so the parser returns nothing, and a row with this creation date takes
  the current time of the host.
\<close>

theorem parseFrenchDateString_examples:
  "parseFrenchDateString h ''23/10/2025, 14:30:00'' = Some (newDate 2025 9 23 14 30 0) \<and>
   getFullYear (newDate 2025 9 23 14 30 0) = 2025 \<and>
   getMonth (newDate 2025 9 23 14 30 0) = 9 \<and>
   getDate (newDate 2025 9 23 14 30 0) = 23 \<and>
   getHours (newDate 2025 9 23 14 30 0) = 14 \<and>
   getMinutes (newDate 2025 9 23 14 30 0) = 30 \<and>
   getSeconds (newDate 2025 9 23 14 30 0) = 0 \<and>
   matches ''dd/dd/dddd'' ''31/02/2025'' \<and>
   getFullYear (newDate 2025 1 31 0 0 0) = 2025 \<and>
   getMonth (newDate 2025 1 31 0 0 0) = 2 \<and>
   getDate (newDate 2025 1 31 0 0 0) = 3 \<and>
   parseFrenchDateString h ''31/02/2025'' = None \<and>
   (row ''OrderCreationDate'' = Some ''31/02/2025'' \<longrightarrow>
      creationDateISO h row st = (nowISOString h (calls st), st\<lparr>calls := Suc (calls st)\<rparr>))"
proof -
  have a: "parseFrenchDateString h ''23/10/2025, 14:30:00'' = Some (newDate 2025 9 23 14 30 0)"
    by code_simp
  have b: "getFullYear (newDate 2025 9 23 14 30 0) = 2025 \<and>
           getMonth (newDate 2025 9 23 14 30 0) = 9 \<and>
           getDate (newDate 2025 9 23 14 30 0) = 23 \<and>
           getHours (newDate 2025 9 23 14 30 0) = 14 \<and>
           getMinutes (newDate 2025 9 23 14 30 0) = 30 \<and>
           getSeconds (newDate 2025 9 23 14 30 0) = 0"
    by code_simp
  have c: "matches ''dd/dd/dddd'' ''31/02/2025''"
    by code_simp
  have d: "getFullYear (newDate 2025 1 31 0 0 0) = 2025 \<and>
           getMonth (newDate 2025 1 31 0 0 0) = 2 \<and>
           getDate (newDate 2025 1 31 0 0 0) = 3"
    by code_simp
  have e: "parseFrenchDateString h ''31/02/2025'' = None"
    by code_simp
  have f: "row ''OrderCreationDate'' = Some ''31/02/2025'' \<longrightarrow>
      creationDateISO h row st = (nowISOString h (calls st), st\<lparr>calls := Suc (calls st)\<rparr>)"
    by (simp add: creationDateISO_def truthy_def orEmpty_def e)
  from a b c d e f show ?thesis by blast
qed

theorem parseFrenchDateString_examples_witness:
  "[''OrderCreationDate'' \<mapsto> ''31/02/2025''] ''OrderCreationDate'' = Some ''31/02/2025'' \<and>
   fst (creationDateISO sampleHost [''OrderCreationDate'' \<mapsto> ''31/02/2025''] seedState) = ''now-''"
  using parseFrenchDateString_examples
          [of sampleHost "[''OrderCreationDate'' \<mapsto> ''31/02/2025'']" seedState]
  by (simp add: sampleHost_def seedState_def)

section \<open>The CSV parser on a quoted field\<close>

lemma scanLine_append:
  "c \<noteq> CHR 0x22 \<Longrightarrow>
   scanLine (p @ c # rest) row cur q =
     (case scanLine (p @ [c]) row cur q of (r, cu, q') \<Rightarrow> scanLine rest r cu q')"
proof (induction p row cur q rule: scanLine.induct)
  case (1 row cur q)
  then show ?case by simp
next
  case (2 x xs row cur q)
  show ?case
  proof (cases "x = CHR 0x22")
    case False
    with 2 show ?thesis by simp
  next
    case True
    note x = this
    show ?thesis
    proof (cases xs)
      case Nil
      with x "2.prems" show ?thesis by simp
    next
      case (Cons d ds)
      show ?thesis
      proof (cases "q \<and> d = CHR 0x22")
        case True
        have s1: "scanLine ((x # xs) @ c # rest) row cur q = scanLine (ds @ c # rest) row (cur @ [CHR 0x22]) q"
          using x Cons True by simp
        have s2: "scanLine ((x # xs) @ [c]) row cur q = scanLine (ds @ [c]) row (cur @ [CHR 0x22]) q"
          using x Cons True by simp
        show ?thesis unfolding s1 s2 by (rule "2.IH"(2)[OF x Cons True "2.prems"])
      next
        case False
        have s1: "scanLine ((x # xs) @ c # rest) row cur q = scanLine (xs @ c # rest) row cur (\<not> q)"
          using x Cons False by (cases q; simp)
        have s2: "scanLine ((x # xs) @ [c]) row cur q = scanLine (xs @ [c]) row cur (\<not> q)"
          using x Cons False by (cases q; simp)
        show ?thesis unfolding s1 s2 by (rule "2.IH"(3)[OF x Cons False "2.prems"])
      qed
    qed
  qed
qed

lemma scanLine_row_grows: "\<exists>more. fst (scanLine s row cur q) = row @ more"
proof (induction s row cur q rule: scanLine.induct)
  case (1 row cur q)
  then show ?case by simp
next
  case (2 c cs row cur q)
  show ?case
  proof (cases "c = CHR 0x22")
    case False
    with "2.IH"(4,5) show ?thesis by (cases "c = CHR '','' \<and> \<not> q") auto
  next
    case True
    note c = this
    show ?thesis
    proof (cases cs)
      case Nil
      with c show ?thesis by simp
    next
      case (Cons d ds)
      show ?thesis
      proof (cases "q \<and> d = CHR 0x22")
        case True
        have s1: "scanLine (c # cs) row cur q = scanLine ds row (cur @ [CHR 0x22]) q"
          using c Cons True by simp
        show ?thesis unfolding s1 by (rule "2.IH"(2)[OF c Cons True])
      next
        case False
        have s1: "scanLine (c # cs) row cur q = scanLine cs row cur (\<not> q)"
          using c Cons False by (cases q; simp)
        show ?thesis unfolding s1 by (rule "2.IH"(3)[OF c Cons False])
      qed
    qed
  qed
qed

lemma scan_quoted_end: "scanLine quotedField row [] False = (row, quotedValue, False)"
  by (simp add: quotedField_def quotedValue_def)

lemma scan_quoted_comma:
  "scanLine (quotedField @ CHR '','' # rest) row [] False = scanLine rest (row @ [quotedValue]) [] False"
  by (simp add: quotedField_def quotedValue_def)

lemma trim_quotedValue: "trim quotedValue = quotedValue"
  by (simp add: trim_def quotedValue_def isWhiteSpace_def)

lemma rowObjectFrom_other: "header \<notin> set headers \<Longrightarrow> rowObjectFrom index headers row m header = m header"
  by (induction headers arbitrary: index m) auto

lemma rowObjectFrom_at:
  "k < length headers \<Longrightarrow> headers ! k \<notin> set (drop (Suc k) headers) \<Longrightarrow>
   headers ! k \<noteq> ''__proto__'' \<Longrightarrow>
   rowObjectFrom index headers row m (headers ! k) =
     Some (if index + k < length row \<and> row ! (index + k) \<noteq> [] then trim (row ! (index + k)) else [])"
proof (induction headers arbitrary: index m k)
  case Nil
  then show ?case by simp
next
  case (Cons a headers)
  show ?case
  proof (cases k)
    case 0
    with Cons.prems show ?thesis by (simp add: rowObjectFrom_other)
  next
    case (Suc k')
    with Cons.prems Cons.IH[of k' "Suc index"] show ?thesis by simp
  qed
qed


lemma splitFields_quoted:
  assumes pre: "pre = [] \<or> last pre = CHR '',''"
    and st: "scanLine pre [] [] False = (fs, [], False)"
    and post: "post = [] \<or> hd post = CHR '',''"
  shows "length fs < length (splitFields (pre @ quotedField @ post)) \<and>
         splitFields (pre @ quotedField @ post) ! length fs = quotedValue"
proof -
  have start: "scanLine (pre @ quotedField @ post) [] [] False = scanLine (quotedField @ post) fs [] False"
  proof (cases "pre = []")
    case True
    with st show ?thesis by simp
  next
    case False
    with pre obtain p where p: "pre = p @ [CHR '','']"
      by (metis append_butlast_last_id)
    have "scanLine (p @ CHR '','' # (quotedField @ post)) [] [] False =
          (case scanLine (p @ [CHR '','']) [] [] False of (r, cu, q') \<Rightarrow> scanLine (quotedField @ post) r cu q')"
      by (rule scanLine_append) simp
    with p st show ?thesis by simp
  qed
  show ?thesis
  proof (cases post)
    case Nil
    with start show ?thesis by (simp add: splitFields_def scan_quoted_end)
  next
    case (Cons c rest)
    with post have c: "c = CHR '',''" by simp
    obtain more where more: "fst (scanLine rest (fs @ [quotedValue]) [] False) = (fs @ [quotedValue]) @ more"
      using scanLine_row_grows by blast
    obtain r cu q where r: "scanLine rest (fs @ [quotedValue]) [] False = (r, cu, q)"
      by (cases "scanLine rest (fs @ [quotedValue]) [] False") auto
    from start Cons c r have "splitFields (pre @ quotedField @ post) = r @ [cu]"
      by (simp add: splitFields_def scan_quoted_comma)
    moreover from more r have "r = fs @ [quotedValue] @ more" by simp
    ultimately show ?thesis by (simp add: nth_append)
  qed
qed

lemma trim_Nil_whitespace: "trim s = [] \<Longrightarrow> \<forall>c \<in> set s. isWhiteSpace c"
proof -
  assume "trim s = []"
  then have a: "\<forall>c \<in> set (dropWhile isWhiteSpace s). isWhiteSpace c"
    by (simp add: trim_def)
  have "dropWhile isWhiteSpace s = []"
  proof (rule ccontr)
    assume n: "dropWhile isWhiteSpace s \<noteq> []"
    then have "\<not> isWhiteSpace (hd (dropWhile isWhiteSpace s))"
      by (rule hd_dropWhile)
    with a n show False by simp
  qed
  then show ?thesis by simp
qed

lemma quoted_line_not_blank: "trim (pre @ quotedField @ post) \<noteq> []"
proof
  assume "trim (pre @ quotedField @ post) = []"
  from trim_Nil_whitespace[OF this] have "isWhiteSpace CHR ''a''"
    by (simp add: quotedField_def)
  then show False by (simp add: isWhiteSpace_def)
qed

lemma filter_nth_take:
  "m < length xs \<Longrightarrow> P (xs ! m) \<Longrightarrow>
   length (filter P (take m xs)) < length (filter P xs) \<and>
   filter P xs ! length (filter P (take m xs)) = xs ! m"
proof (induction xs arbitrary: m)
  case Nil
  then show ?case by simp
next
  case (Cons x xs)
  then show ?case by (cases m) auto
qed

text \<open>
  C3 (as amended). The text has the header line \<open>line0\<close> and the data lines \<open>lines\<close>. Data
  line \<open>m\<close> holds the quoted field \<open>"a,b""c"\<close>: the field starts the line or follows a comma
  that separates fields (the scan of the text before it ends outside quotes with an empty
  current field, having read the fields \<open>fs\<close>), and it ends the line or is followed by a
  comma. The header line has a name at the position of the field, no later header has the
  same name, and the name is not \<open>__proto__\<close>. Then the row parsed from that line has,
  under that name, the string \<open>a,b"c\<close>, which has five characters.
\<close>

theorem parseCSV_quoted_field:
  assumes "split CHR 0x0A (filter (\<lambda>c. c \<noteq> CHR 0x0D) csvText) = line0 # lines"
    and "m < length lines"
    and "lines ! m = pre @ quotedField @ post"
    and "pre = [] \<or> last pre = CHR '',''"
    and "scanLine pre [] [] False = (fs, [], False)"
    and "post = [] \<or> hd post = CHR '',''"
    and "length fs < length (parseHeaders line0)"
    and "parseHeaders line0 ! length fs \<notin> set (drop (Suc (length fs)) (parseHeaders line0))"
    and "parseHeaders line0 ! length fs \<noteq> ''__proto__''"
  shows "length (filter (\<lambda>line. trim line \<noteq> []) (take m lines)) < length (parseCSV csvText) \<and>
         (parseCSV csvText ! length (filter (\<lambda>line. trim line \<noteq> []) (take m lines)))
            (parseHeaders line0 ! length fs) = Some quotedValue \<and>
         length quotedValue = 5"
proof -
  let ?P = "\<lambda>line. trim line \<noteq> []"
  let ?k = "length (filter ?P (take m lines))"
  have q: "quotedValue \<noteq> []" and l: "length quotedValue = 5"
    by (simp_all add: quotedValue_def)
  have "?P (lines ! m)"
    unfolding assms(3) by (rule quoted_line_not_blank)
  from filter_nth_take[of m lines ?P, OF assms(2) this]
  have k: "?k < length (filter ?P lines)" and n: "filter ?P lines ! ?k = pre @ quotedField @ post"
    by (simp_all add: assms(3))
  have p: "parseCSV csvText =
      map (\<lambda>line. rowObjectOf (parseHeaders line0) (splitFields line)) (filter ?P lines)"
    by (simp add: parseCSV_def assms(1))
  have "rowObjectOf (parseHeaders line0) (splitFields (pre @ quotedField @ post))
          (parseHeaders line0 ! length fs) = Some quotedValue"
    using splitFields_quoted[OF assms(4-6)]
      rowObjectFrom_at[OF assms(7-9), of 0 "splitFields (pre @ quotedField @ post)" Map.empty]
    by (simp add: rowObjectOf_def trim_quotedValue q)
  with k n l show ?thesis
    unfolding p by simp
qed

lemma sampleCsv3_lines:
  "split CHR 0x0A (filter (\<lambda>c. c \<noteq> CHR 0x0D) sampleCsv3) =
     ''CustomerName,CustomerNotes,SiteName'' # [''ACME,'' @ quotedField @ '',Lyon'']"
  by code_simp

lemma sampleCsv3_headers:
  "parseHeaders ''CustomerName,CustomerNotes,SiteName'' = [''CustomerName'', ''CustomerNotes'', ''SiteName'']"
  by code_simp

lemma sampleCsv3_pre: "scanLine ''ACME,'' [] [] False = ([''ACME''], [], False)"
  by simp

theorem parseCSV_quoted_field_witness:
  "split CHR 0x0A (filter (\<lambda>c. c \<noteq> CHR 0x0D) sampleCsv3) =
     ''CustomerName,CustomerNotes,SiteName'' # [''ACME,'' @ quotedField @ '',Lyon''] \<and>
   0 < length [''ACME,'' @ quotedField @ '',Lyon''] \<and>
   [''ACME,'' @ quotedField @ '',Lyon''] ! 0 = ''ACME,'' @ quotedField @ '',Lyon'' \<and>
   (''ACME,'' = [] \<or> last ''ACME,'' = CHR '','') \<and>
   scanLine ''ACME,'' [] [] False = ([''ACME''], [], False) \<and>
   ('',Lyon'' = [] \<or> hd '',Lyon'' = CHR '','') \<and>
   length [''ACME''] < length (parseHeaders ''CustomerName,CustomerNotes,SiteName'') \<and>
   parseHeaders ''CustomerName,CustomerNotes,SiteName'' ! length [''ACME'']
      \<notin> set (drop (Suc (length [''ACME''])) (parseHeaders ''CustomerName,CustomerNotes,SiteName'')) \<and>
   parseHeaders ''CustomerName,CustomerNotes,SiteName'' ! length [''ACME''] \<noteq> ''__proto__'' \<and>
   0 < length (parseCSV sampleCsv3) \<and>
   (parseCSV sampleCsv3 ! 0) ''CustomerNotes'' = Some quotedValue"
  using parseCSV_quoted_field[where csvText=sampleCsv3
          and ?line0.0="''CustomerName,CustomerNotes,SiteName''"
          and lines="[''ACME,'' @ quotedField @ '',Lyon'']" and m=0
          and pre="''ACME,''" and post="'',Lyon''" and fs="[''ACME'']"]
    sampleCsv3_lines sampleCsv3_pre
  by (simp add: sampleCsv3_headers)

text \<open>
  The claim as stated gives the parsed value seven characters and speaks of any data row.
  In the first sample file the value of the quoted field is \<open>a,b"c\<close>, of length five. In the
  second, two columns have the same name and the row holds the later field \<open>z\<close> under it.
  In the third, the quoted field lies beyond the last header and the row holds no value
  for it. In the fourth, the column of the quoted field is named \<open>__proto__\<close> and the row
  has no property of that name.
\<close>

theorem parseCSV_quoted_field_counterexample:
  "length (parseCSV sampleCsv3) = 1 \<and>
   (parseCSV sampleCsv3 ! 0) ''CustomerNotes'' = Some quotedValue \<and>
   length (orEmpty ((parseCSV sampleCsv3 ! 0) ''CustomerNotes'')) \<noteq> 7 \<and>
   length (parseCSV sampleCsv3dup) = 1 \<and>
   (parseCSV sampleCsv3dup ! 0) ''A'' = Some ''z'' \<and>
   (parseCSV sampleCsv3dup ! 0) ''A'' \<noteq> Some quotedValue \<and>
   length (parseCSV sampleCsv3short) = 1 \<and>
   (parseCSV sampleCsv3short ! 0) ''A'' = Some ''x'' \<and>
   dom (parseCSV sampleCsv3short ! 0) = {''A''} \<and>
   length (parseCSV sampleCsv3proto) = 1 \<and>
   (parseCSV sampleCsv3proto ! 0) ''__proto__'' = None \<and>
   (parseCSV sampleCsv3proto ! 0) ''B'' = Some ''z''"
proof -
  have a: "length (parseCSV sampleCsv3) = 1 \<and>
   (parseCSV sampleCsv3 ! 0) ''CustomerNotes'' = Some quotedValue \<and>
   length (orEmpty ((parseCSV sampleCsv3 ! 0) ''CustomerNotes'')) \<noteq> 7"
    by code_simp
  have b: "length (parseCSV sampleCsv3dup) = 1 \<and>
   (parseCSV sampleCsv3dup ! 0) ''A'' = Some ''z'' \<and>
   (parseCSV sampleCsv3dup ! 0) ''A'' \<noteq> Some quotedValue"
    by code_simp
  have c1: "parseCSV sampleCsv3short = [[''A'' \<mapsto> ''x'']]"
    by (simp add: sampleCsv3short_def parseCSV_def split_def parseHeaders_def trim_def
        isWhiteSpace_def rowObjectOf_def splitFields_def quotedField_def)
  have c: "length (parseCSV sampleCsv3short) = 1 \<and>
   (parseCSV sampleCsv3short ! 0) ''A'' = Some ''x'' \<and>
   dom (parseCSV sampleCsv3short ! 0) = {''A''}"
    unfolding c1 by simp
  have d: "length (parseCSV sampleCsv3proto) = 1 \<and>
   (parseCSV sampleCsv3proto ! 0) ''__proto__'' = None \<and>
   (parseCSV sampleCsv3proto ! 0) ''B'' = Some ''z''"
    by code_simp
  from a b c d show ?thesis by blast
qed

section \<open>Merging rows into the customer tree\<close>

lemma listExt_refl: "(\<And>x. R x x) \<Longrightarrow> listExt R xs xs"
  by (induction xs) auto

lemma listExt_append: "(\<And>x. R x x) \<Longrightarrow> listExt R xs (xs @ ys)"
  by (induction xs) auto

lemma listExt_update: "(\<And>x. R x x) \<Longrightarrow> R (xs ! i) y \<Longrightarrow> listExt R xs (xs[i := y])"
proof (induction xs arbitrary: i)
  case Nil
  then show ?case by simp
next
  case (Cons a xs)
  then show ?case by (cases i) (auto simp: listExt_refl)
qed

lemma listExt_trans:
  "(\<And>x y z. R x y \<Longrightarrow> R y z \<Longrightarrow> R x z) \<Longrightarrow> listExt R xs ys \<Longrightarrow> listExt R ys zs \<Longrightarrow> listExt R xs zs"
proof (induction R xs ys arbitrary: zs rule: listExt.induct)
  case (1 R ys)
  then show ?case by simp
next
  case (2 R x xs)
  then show ?case by simp
next
  case (3 R x xs y ys)
  then show ?case by (cases zs) auto
qed

lemma listExt_nth: "listExt R xs ys \<Longrightarrow> i < length xs \<Longrightarrow> i < length ys \<and> R (xs ! i) (ys ! i)"
proof (induction R xs ys arbitrary: i rule: listExt.induct)
  case (3 R x xs y ys)
  then show ?case by (cases i) auto
qed auto

lemma findIndex_SomeD: "findIndex p xs = Some i \<Longrightarrow> i < length xs \<and> p (xs ! i)"
  by (induction xs arbitrary: i) (auto split: if_splits)

lemma findIndex_None_iff: "findIndex p xs = None \<longleftrightarrow> \<not> list_ex p xs"
  by (induction xs) auto

lemma find_None_list_ex: "find p xs = None \<longleftrightarrow> \<not> list_ex p xs"
  by (induction xs) auto

lemma find_SomeD: "find p xs = Some x \<Longrightarrow> p x \<and> x \<in> set xs"
  by (induction xs) (auto split: if_splits)

lemma findIndex_snoc_None: "findIndex p xs = None \<Longrightarrow> p y \<Longrightarrow> findIndex p (xs @ [y]) = Some (length xs)"
  by (induction xs) (auto split: if_splits)

lemma findIndex_append_Some: "findIndex p xs = Some i \<Longrightarrow> findIndex p (xs @ ys) = Some i"
  by (induction xs arbitrary: i) (auto split: if_splits)

lemma findIndex_update_same:
  "p y = p (xs ! i) \<Longrightarrow> findIndex p (xs[i := y]) = findIndex p xs"
proof (induction xs arbitrary: i)
  case Nil
  then show ?case by simp
next
  case (Cons a xs)
  then show ?case by (cases i) auto
qed

lemma findIndex_listExt:
  "(\<And>x y. R x y \<Longrightarrow> p y = p x) \<Longrightarrow> listExt R xs ys \<Longrightarrow> findIndex p xs = Some i \<Longrightarrow>
   findIndex p ys = Some i"
proof (induction R xs ys arbitrary: i rule: listExt.induct)
  case (3 R x xs y ys)
  then show ?case by (auto split: if_splits)
qed auto

lemma siteExt_refl: "siteExt s s"
  by (simp add: siteExt_def)

lemma siteExt_trans: "siteExt a b \<Longrightarrow> siteExt b c \<Longrightarrow> siteExt a c"
  by (auto simp: siteExt_def)

lemma customerExt_refl: "customerExt c c"
  by (simp add: customerExt_def listExt_refl siteExt_refl)

lemma customerExt_trans: "customerExt a b \<Longrightarrow> customerExt b c \<Longrightarrow> customerExt a c"
  unfolding customerExt_def
  using listExt_trans[of siteExt, OF siteExt_trans] by fastforce

lemma stateExt_refl: "stateExt st st"
  by (simp add: stateExt_def listExt_refl customerExt_refl)

lemma stateExt_trans: "stateExt a b \<Longrightarrow> stateExt b c \<Longrightarrow> stateExt a c"
  unfolding stateExt_def
  using listExt_trans[of customerExt, OF customerExt_trans] by fastforce

lemma resolveUser_frame:
  assumes "resolveUser h row st = (user, st1)"
  shows "customers st1 = customers st \<and> specialOptions st1 = specialOptions st \<and>
         writes st1 = writes st \<and> (\<exists>more. users st1 = users st @ more)"
  using assms
  by (auto simp: resolveUser_def pushUser_def Let_def split: if_splits option.splits)

lemma find_Some_list_ex: "find p xs = Some x \<Longrightarrow> list_ex p xs"
  by (induction xs) (auto split: if_splits)

lemma resolveUser_found:
  assumes "resolveUser h row st = (user, st1)" and "truthy (row ''OrderAssignedUser'')"
  shows "user \<noteq> None \<and>
         list_ex (\<lambda>u. sameText (user_name u) (orEmpty (row ''OrderAssignedUser''))) (users st1)"
proof (cases "find (\<lambda>u. sameText (user_name u) (orEmpty (row ''OrderAssignedUser''))) (users st)")
  case None
  with assms show ?thesis
    by (auto simp: resolveUser_def pushUser_def Let_def sameText_def)
next
  case (Some u)
  with assms have "user = Some u \<and> st1 = st"
    by (simp add: resolveUser_def Let_def)
  with find_Some_list_ex[OF Some] show ?thesis by simp
qed

lemma resolveUser_absorbed:
  assumes "truthy (row ''OrderAssignedUser'') \<longrightarrow>
           list_ex (\<lambda>u. sameText (user_name u) (orEmpty (row ''OrderAssignedUser''))) (users st)"
  shows "snd (resolveUser h row st) = st"
  using assms
  by (auto simp: resolveUser_def Let_def find_None_list_ex split: option.splits)

lemma resolveCustomer_frame:
  assumes "resolveCustomer h row st = (i, st2)"
  shows "users st2 = users st \<and> specialOptions st2 = specialOptions st \<and> writes st2 = writes st"
  using assms
  by (auto simp: resolveCustomer_def updateCustomer_def Let_def split: if_splits option.splits)

lemma resolveCustomer_ext:
  assumes "resolveCustomer h row st = (i, st2)"
  shows "listExt customerExt (customers st) (customers st2)"
  using assms
  by (auto simp: resolveCustomer_def updateCustomer_def Let_def listExt_refl listExt_append
        customerExt_refl siteExt_refl
      intro!: listExt_update
      split: if_splits option.splits)
     (simp add: customerExt_def listExt_refl siteExt_refl)

lemma resolveCustomer_found:
  assumes "resolveCustomer h row st = (i, st2)"
  shows "findIndex (\<lambda>c. sameText (customer_name c) (orEmpty (row ''CustomerName''))) (customers st2) = Some i
         \<and> (truthy (row ''CustomerNotes'') \<longrightarrow> customer_notes (customers st2 ! i) \<noteq> [])"
proof (cases "findIndex (\<lambda>c. sameText (customer_name c) (orEmpty (row ''CustomerName''))) (customers st)")
  case None
  with assms show ?thesis
    by (auto simp: resolveCustomer_def Let_def findIndex_snoc_None sameText_def truthy_def orEmpty_def
        split: option.splits)
next
  case (Some k)
  from findIndex_SomeD[OF Some] have k: "k < length (customers st)" by simp
  from assms Some k show ?thesis
    by (auto simp: resolveCustomer_def updateCustomer_def Let_def findIndex_update_same
          truthy_def orEmpty_def
        split: if_splits option.splits)
qed

lemma resolveCustomer_absorbed:
  assumes "findIndex (\<lambda>c. sameText (customer_name c) (orEmpty (row ''CustomerName''))) (customers st) = Some i"
    and "truthy (row ''CustomerNotes'') \<longrightarrow> customer_notes (customers st ! i) \<noteq> []"
  shows "resolveCustomer h row st = (i, st)"
  using assms by (auto simp: resolveCustomer_def Let_def)

lemma updateCustomer_frame:
  "users (updateCustomer i f st) = users st \<and> specialOptions (updateCustomer i f st) = specialOptions st \<and>
   writes (updateCustomer i f st) = writes st \<and> calls (updateCustomer i f st) = calls st \<and>
   customers (updateCustomer i f st) = (customers st)[i := f (customers st ! i)]"
  by (simp add: updateCustomer_def)

lemma resolveSite_frame:
  assumes "resolveSite h row i st = (j, st3)"
  shows "users st3 = users st \<and> specialOptions st3 = specialOptions st \<and> writes st3 = writes st"
  using assms
  by (auto simp: resolveSite_def updateSite_def updateCustomer_def Let_def split: if_splits option.splits)

lemma resolveSite_shape:
  assumes "resolveSite h row i st = (j, st3)"
  shows "\<exists>sites'.
           customers st3 = (customers st)[i := (customers st ! i)\<lparr>customer_sites := sites'\<rparr>] \<and>
           listExt siteExt (customer_sites (customers st ! i)) sites' \<and>
           findIndex (\<lambda>s. sameText (site_name s) (orEmpty (row ''SiteName''))) sites' = Some j \<and>
           (truthy (row ''SiteGeneralInfo'') \<longrightarrow> site_generalInfo (sites' ! j) \<noteq> [])"
proof (cases "findIndex (\<lambda>s. sameText (site_name s) (orEmpty (row ''SiteName'')))
                (customer_sites (customers st ! i))")
  case None
  let ?new = "\<lparr>site_id = randomUUID h (calls st), site_name = orEmpty (row ''SiteName''),
               site_generalInfo = orEmpty (row ''SiteGeneralInfo''), site_generalInfoFiles = [],
               site_orders = []\<rparr>"
  from assms None have j: "j = length (customer_sites (customers st ! i))"
    and c: "customers st3 = (customers st)[i := (customers st ! i)
              \<lparr>customer_sites := customer_sites (customers st ! i) @ [?new]\<rparr>]"
    by (auto simp: resolveSite_def updateCustomer_def Let_def)
  have "findIndex (\<lambda>s. sameText (site_name s) (orEmpty (row ''SiteName'')))
          (customer_sites (customers st ! i) @ [?new]) = Some j"
    unfolding j by (rule findIndex_snoc_None[OF None]) (simp add: sameText_def)
  moreover have "listExt siteExt (customer_sites (customers st ! i)) (customer_sites (customers st ! i) @ [?new])"
    by (rule listExt_append) (rule siteExt_refl)
  moreover have "truthy (row ''SiteGeneralInfo'') \<longrightarrow>
      site_generalInfo ((customer_sites (customers st ! i) @ [?new]) ! j) \<noteq> []"
    unfolding j by (simp add: truthy_def orEmpty_def split: option.splits)
  ultimately show ?thesis using c by blast
next
  case (Some k)
  let ?sites = "customer_sites (customers st ! i)"
  from findIndex_SomeD[OF Some] have k: "k < length ?sites" by simp
  show ?thesis
  proof (cases "truthy (row ''SiteGeneralInfo'') \<and> site_generalInfo (?sites ! k) = []")
    case True
    let ?s' = "(?sites ! k)\<lparr>site_generalInfo := orEmpty (row ''SiteGeneralInfo'')\<rparr>"
    from assms Some True have j: "j = k"
      and c: "customers st3 = (customers st)[i := (customers st ! i)\<lparr>customer_sites := ?sites[k := ?s']\<rparr>]"
      by (auto simp: resolveSite_def updateSite_def updateCustomer_def Let_def)
    have "findIndex (\<lambda>s. sameText (site_name s) (orEmpty (row ''SiteName''))) (?sites[k := ?s']) = Some j"
      unfolding j using Some by (simp add: findIndex_update_same)
    moreover have "listExt siteExt ?sites (?sites[k := ?s'])"
      by (rule listExt_update) (simp_all add: siteExt_def True)
    moreover have "truthy (row ''SiteGeneralInfo'') \<longrightarrow> site_generalInfo ((?sites[k := ?s']) ! j) \<noteq> []"
      unfolding j using k by (simp add: truthy_def orEmpty_def split: option.splits)
    ultimately show ?thesis using c by blast
  next
    case False
    from assms Some False have j: "j = k" and st: "st3 = st"
      by (auto simp: resolveSite_def Let_def)
    have "customers st3 = (customers st)[i := (customers st ! i)\<lparr>customer_sites := ?sites\<rparr>]"
      unfolding st by simp
    moreover have "listExt siteExt ?sites ?sites"
      by (rule listExt_refl) (rule siteExt_refl)
    moreover have "truthy (row ''SiteGeneralInfo'') \<longrightarrow> site_generalInfo (?sites ! j) \<noteq> []"
      using False j by simp
    ultimately show ?thesis using Some j by blast
  qed
qed

lemma resolveSite_absorbed:
  assumes "findIndex (\<lambda>s. sameText (site_name s) (orEmpty (row ''SiteName'')))
             (customer_sites (customers st ! i)) = Some j"
    and "truthy (row ''SiteGeneralInfo'') \<longrightarrow> site_generalInfo (customer_sites (customers st ! i) ! j) \<noteq> []"
  shows "resolveSite h row i st = (j, st)"
  using assms by (auto simp: resolveSite_def Let_def)

lemma pushOrder_shape:
  "users (pushOrder h row user partType i j st) = users st \<and>
   specialOptions (pushOrder h row user partType i j st) = specialOptions st \<and>
   writes (pushOrder h row user partType i j st) = writes st \<and>
   (\<exists>order. newOrderFor row partType order \<and>
      customers (pushOrder h row user partType i j st) =
        (customers st)[i := (customers st ! i)\<lparr>customer_sites :=
           (customer_sites (customers st ! i))[j := (customer_sites (customers st ! i) ! j)
              \<lparr>site_orders := site_orders (customer_sites (customers st ! i) ! j) @ [order]\<rparr>]\<rparr>])"
proof -
  obtain d st' where d: "creationDateISO h row st = (d, st')"
    by (cases "creationDateISO h row st") auto
  then have st': "customers st' = customers st \<and> users st' = users st \<and>
      specialOptions st' = specialOptions st \<and> writes st' = writes st"
    by (auto simp: creationDateISO_def Let_def split: option.splits)
  let ?part = "\<lparr>part_number = orEmpty (row ''OrderNumber''),
                 part_isSent = (row ''OrderStatus'' = Some (''Envoy'' @ [CHR 0xE9, CHR ''e''])),
                 part_creationDate = d,
                 part_userId = user_id user,
                 part_userName = user_name user,
                 part_notes = Some (orEmpty (row ''OrderNotes''))\<rparr>"
  let ?order = "\<lparr>order_id = randomUUID h (calls st'),
                 order_frames = (if partType = frames then Some ?part else None),
                 order_doors = (if partType = doors then Some ?part else None)\<rparr>"
  have n: "newOrderFor row partType ?order"
    by (cases partType) (simp_all add: newOrderFor_def partOf_def sent_def)
  have c: "customers (pushOrder h row user partType i j st) =
        (customers st)[i := (customers st ! i)\<lparr>customer_sites :=
           (customer_sites (customers st ! i))[j := (customer_sites (customers st ! i) ! j)
              \<lparr>site_orders := site_orders (customer_sites (customers st ! i) ! j) @ [?order]\<rparr>]\<rparr>]"
    using d st' by (simp add: pushOrder_def Let_def updateSite_def updateCustomer_def)
  have f: "users (pushOrder h row user partType i j st) = users st \<and>
   specialOptions (pushOrder h row user partType i j st) = specialOptions st \<and>
   writes (pushOrder h row user partType i j st) = writes st"
    using d st' by (simp add: pushOrder_def Let_def updateSite_def updateCustomer_def)
  from n c f show ?thesis by blast
qed

lemma processRow_cases:
  assumes cn: "truthy (row ''CustomerName'')"
    and u: "resolveUser h row st = (user, st1)"
    and c: "resolveCustomer h row st1 = (i, st2)"
    and s: "resolveSite h row i st2 = (j, st3)"
  shows "processRow h row st =
     (if \<not> truthy (row ''SiteName'') then st2
      else if \<not> truthy (row ''OrderPart'') \<or> \<not> truthy (row ''OrderNumber'') \<or> user = None
              \<or> partTypeOf (orEmpty (row ''OrderPart'')) = None then st3
      else if orderExists (the (partTypeOf (orEmpty (row ''OrderPart'')))) (orEmpty (row ''OrderNumber''))
                (site_orders (customer_sites (customers st3 ! i) ! j)) then st3
      else pushOrder h row (the user) (the (partTypeOf (orEmpty (row ''OrderPart'')))) i j st3)"
  using assms by (auto simp: processRow_def split: option.splits)

lemma stateExt_resolveUser:
  assumes "resolveUser h row st = (user, st1)"
  shows "stateExt st st1"
  using resolveUser_frame[OF assms]
  by (auto simp: stateExt_def listExt_refl customerExt_refl)

lemma stateExt_resolveCustomer:
  assumes "resolveCustomer h row st = (i, st2)"
  shows "stateExt st st2"
  using resolveCustomer_frame[OF assms] resolveCustomer_ext[OF assms]
  by (simp add: stateExt_def)

lemma stateExt_resolveSite:
  assumes "resolveSite h row i st = (j, st3)"
  shows "stateExt st st3"
proof -
  from resolveSite_shape[OF assms] obtain sites' where
    c: "customers st3 = (customers st)[i := (customers st ! i)\<lparr>customer_sites := sites'\<rparr>]"
    and e: "listExt siteExt (customer_sites (customers st ! i)) sites'"
    by blast
  have "listExt customerExt (customers st) (customers st3)"
    unfolding c by (rule listExt_update) (simp_all add: customerExt_refl customerExt_def e)
  with resolveSite_frame[OF assms] show ?thesis by (simp add: stateExt_def)
qed

lemma stateExt_pushOrder: "stateExt st (pushOrder h row user partType i j st)"
proof -
  from pushOrder_shape[of h row user partType i j st] obtain order where
    c: "customers (pushOrder h row user partType i j st) =
        (customers st)[i := (customers st ! i)\<lparr>customer_sites :=
           (customer_sites (customers st ! i))[j := (customer_sites (customers st ! i) ! j)
              \<lparr>site_orders := site_orders (customer_sites (customers st ! i) ! j) @ [order]\<rparr>]\<rparr>]"
    and u: "users (pushOrder h row user partType i j st) = users st"
    by blast
  have "listExt siteExt (customer_sites (customers st ! i))
          ((customer_sites (customers st ! i))[j := (customer_sites (customers st ! i) ! j)
              \<lparr>site_orders := site_orders (customer_sites (customers st ! i) ! j) @ [order]\<rparr>])"
    by (rule listExt_update) (simp_all add: siteExt_def)
  then have "listExt customerExt (customers st) (customers (pushOrder h row user partType i j st))"
    unfolding c by (intro listExt_update) (simp_all add: customerExt_refl customerExt_def)
  with u show ?thesis by (simp add: stateExt_def)
qed

lemma processRow_ext: "stateExt st (processRow h row st)"
proof (cases "truthy (row ''CustomerName'')")
  case False
  then show ?thesis by (simp add: processRow_def stateExt_refl)
next
  case True
  obtain user st1 where u: "resolveUser h row st = (user, st1)"
    by (cases "resolveUser h row st") auto
  obtain i st2 where c: "resolveCustomer h row st1 = (i, st2)"
    by (cases "resolveCustomer h row st1") auto
  obtain j st3 where s: "resolveSite h row i st2 = (j, st3)"
    by (cases "resolveSite h row i st2") auto
  have e2: "stateExt st st2"
    using stateExt_trans[OF stateExt_resolveUser[OF u] stateExt_resolveCustomer[OF c]] .
  have e3: "stateExt st st3"
    using stateExt_trans[OF e2 stateExt_resolveSite[OF s]] .
  have e4: "stateExt st (pushOrder h row u' pt i j st3)" for u' pt
    using stateExt_trans[OF e3 stateExt_pushOrder] .
  show ?thesis
    unfolding processRow_cases[OF True u c s] using e2 e3 e4 by simp
qed

lemma importRows_ext: "stateExt st (importRows h rows st)"
proof (induction rows arbitrary: st)
  case Nil
  then show ?case by (simp add: stateExt_refl)
next
  case (Cons row rows)
  from stateExt_trans[OF processRow_ext Cons.IH] show ?case by simp
qed

lemma orderExists_append: "orderExists pt n xs \<Longrightarrow> orderExists pt n (xs @ ys)"
  by (simp add: orderExists_def list_ex_iff) blast

lemma siteAbsorbed_ext: "siteAbsorbed row s \<Longrightarrow> siteExt s s' \<Longrightarrow> siteAbsorbed row s'"
  by (auto simp: siteAbsorbed_def siteExt_def orderExists_append split: option.splits)

lemma customerAbsorbed_ext:
  assumes "customerAbsorbed row c" and e: "customerExt c c'"
  shows "customerAbsorbed row c'"
proof (cases "truthy (row ''SiteName'')")
  case False
  with assms show ?thesis by (auto simp: customerAbsorbed_def customerExt_def)
next
  case True
  with assms(1) obtain j where
    j: "findIndex (\<lambda>s. sameText (site_name s) (orEmpty (row ''SiteName''))) (customer_sites c) = Some j"
    and a: "siteAbsorbed row (customer_sites c ! j)"
    by (auto simp: customerAbsorbed_def split: option.splits)
  from e have l: "listExt siteExt (customer_sites c) (customer_sites c')"
    by (simp add: customerExt_def)
  have j': "findIndex (\<lambda>s. sameText (site_name s) (orEmpty (row ''SiteName''))) (customer_sites c') = Some j"
    by (rule findIndex_listExt[OF _ l j]) (simp add: siteExt_def)
  from listExt_nth[OF l] findIndex_SomeD[OF j]
  have "siteExt (customer_sites c ! j) (customer_sites c' ! j)" by simp
  from siteAbsorbed_ext[OF a this] j' assms show ?thesis
    by (auto simp: customerAbsorbed_def customerExt_def)
qed

lemma absorbed_ext:
  assumes "absorbed row st" and e: "stateExt st st'"
  shows "absorbed row st'"
proof (cases "truthy (row ''CustomerName'')")
  case False
  then show ?thesis by (simp add: absorbed_def)
next
  case True
  with assms(1) obtain i where
    i: "findIndex (\<lambda>c. sameText (customer_name c) (orEmpty (row ''CustomerName''))) (customers st) = Some i"
    and a: "customerAbsorbed row (customers st ! i)"
    and u: "truthy (row ''OrderAssignedUser'') \<longrightarrow>
         list_ex (\<lambda>u. sameText (user_name u) (orEmpty (row ''OrderAssignedUser''))) (users st)"
    by (auto simp: absorbed_def split: option.splits)
  from e have l: "listExt customerExt (customers st) (customers st')"
    by (simp add: stateExt_def)
  have i': "findIndex (\<lambda>c. sameText (customer_name c) (orEmpty (row ''CustomerName''))) (customers st') = Some i"
    by (rule findIndex_listExt[OF _ l i]) (simp add: customerExt_def)
  from listExt_nth[OF l] findIndex_SomeD[OF i]
  have "customerExt (customers st ! i) (customers st' ! i)" by simp
  from customerAbsorbed_ext[OF a this] have a': "customerAbsorbed row (customers st' ! i)" .
  from e u have u': "truthy (row ''OrderAssignedUser'') \<longrightarrow>
         list_ex (\<lambda>u. sameText (user_name u) (orEmpty (row ''OrderAssignedUser''))) (users st')"
    by (auto simp: stateExt_def list_ex_iff)
  from i' a' u' show ?thesis by (simp add: absorbed_def)
qed

lemma absorbed_fix:
  assumes "absorbed row st"
  shows "processRow h row st = st"
proof (cases "truthy (row ''CustomerName'')")
  case False
  then show ?thesis by (simp add: processRow_def)
next
  case True
  with assms obtain i where
    i: "findIndex (\<lambda>c. sameText (customer_name c) (orEmpty (row ''CustomerName''))) (customers st) = Some i"
    and a: "customerAbsorbed row (customers st ! i)"
    and u: "truthy (row ''OrderAssignedUser'') \<longrightarrow>
         list_ex (\<lambda>u. sameText (user_name u) (orEmpty (row ''OrderAssignedUser''))) (users st)"
    by (auto simp: absorbed_def split: option.splits)
  obtain user where ru: "resolveUser h row st = (user, st)"
    using resolveUser_absorbed[of row st h] u by (cases "resolveUser h row st") auto
  have un: "user = None \<longleftrightarrow> \<not> truthy (row ''OrderAssignedUser'')"
    using ru resolveUser_found[OF ru] by (auto simp: resolveUser_def Let_def)
  from a i have rc: "resolveCustomer h row st = (i, st)"
    using resolveCustomer_absorbed[where row=row and st=st and i=i and h=h]
    by (simp add: customerAbsorbed_def)
  show ?thesis
  proof (cases "truthy (row ''SiteName'')")
    case False
    with True ru rc show ?thesis by (simp add: processRow_def)
  next
    case sn: True
    with a obtain j where
      j: "findIndex (\<lambda>s. sameText (site_name s) (orEmpty (row ''SiteName'')))
            (customer_sites (customers st ! i)) = Some j"
      and sa: "siteAbsorbed row (customer_sites (customers st ! i) ! j)"
      by (auto simp: customerAbsorbed_def split: option.splits)
    from sa j have rs: "resolveSite h row i st = (j, st)"
      using resolveSite_absorbed[where row=row and st=st and i=i and j=j and h=h]
      by (simp add: siteAbsorbed_def)
    from sa un show ?thesis
      unfolding processRow_cases[OF True ru rc rs]
      by (auto simp: siteAbsorbed_def split: option.splits)
  qed
qed

lemma orderExists_snoc_new:
  "newOrderFor row partType order \<Longrightarrow>
   orderExists partType (orEmpty (row ''OrderNumber'')) (orders @ [order])"
  by (auto simp: newOrderFor_def orderExists_def)

lemma processRow_absorbs: "absorbed row (processRow h row st)"
proof (cases "truthy (row ''CustomerName'')")
  case False
  then show ?thesis by (simp add: absorbed_def)
next
  case True
  let ?pu = "\<lambda>u. sameText (user_name u) (orEmpty (row ''OrderAssignedUser''))"
  let ?pc = "\<lambda>c. sameText (customer_name c) (orEmpty (row ''CustomerName''))"
  let ?ps = "\<lambda>s. sameText (site_name s) (orEmpty (row ''SiteName''))"
  obtain user st1 where u: "resolveUser h row st = (user, st1)"
    by (cases "resolveUser h row st") auto
  obtain i st2 where c: "resolveCustomer h row st1 = (i, st2)"
    by (cases "resolveCustomer h row st1") auto
  obtain j st3 where s: "resolveSite h row i st2 = (j, st3)"
    by (cases "resolveSite h row i st2") auto
  have U1: "truthy (row ''OrderAssignedUser'') \<longrightarrow> user \<noteq> None \<and> list_ex ?pu (users st1)"
    using resolveUser_found[OF u] by blast
  have U2: "users st2 = users st1"
    using resolveCustomer_frame[OF c] by simp
  have C2: "findIndex ?pc (customers st2) = Some i"
    and N2: "truthy (row ''CustomerNotes'') \<longrightarrow> customer_notes (customers st2 ! i) \<noteq> []"
    using resolveCustomer_found[OF c] by simp_all
  from findIndex_SomeD[OF C2] have i: "i < length (customers st2)" by simp
  show ?thesis
  proof (cases "truthy (row ''SiteName'')")
    case False
    with U1 U2 C2 N2 show ?thesis
      unfolding processRow_cases[OF True u c s]
      by (simp add: absorbed_def customerAbsorbed_def)
  next
    case sn: True
    from resolveSite_shape[OF s] obtain sites' where
      c3: "customers st3 = (customers st2)[i := (customers st2 ! i)\<lparr>customer_sites := sites'\<rparr>]"
      and S3: "findIndex ?ps sites' = Some j"
      and I3: "truthy (row ''SiteGeneralInfo'') \<longrightarrow> site_generalInfo (sites' ! j) \<noteq> []"
      by blast
    from findIndex_SomeD[OF S3] have j: "j < length sites'" by simp
    have U3: "users st3 = users st1"
      using resolveSite_frame[OF s] U2 by simp
    have C3: "findIndex ?pc (customers st3) = Some i"
      unfolding c3 using C2 by (simp add: findIndex_update_same)
    have n3: "customers st3 ! i = (customers st2 ! i)\<lparr>customer_sites := sites'\<rparr>"
      unfolding c3 using i by simp
    have skip: "absorbed row st3"
      if "\<not> truthy (row ''OrderPart'') \<or> \<not> truthy (row ''OrderNumber'') \<or> user = None
              \<or> partTypeOf (orEmpty (row ''OrderPart'')) = None
              \<or> orderExists (the (partTypeOf (orEmpty (row ''OrderPart'')))) (orEmpty (row ''OrderNumber''))
                (site_orders (customer_sites (customers st3 ! i) ! j))"
      using that U1 U3 C3 N2 S3 I3 sn
      by (auto simp: absorbed_def customerAbsorbed_def siteAbsorbed_def n3 split: option.splits)
    have push: "absorbed row (pushOrder h row u' pt i j st3)"
      if pt: "partTypeOf (orEmpty (row ''OrderPart'')) = Some pt" for u' pt
    proof -
      from pushOrder_shape[of h row u' pt i j st3] obtain order where
        n: "newOrderFor row pt order"
        and c4: "customers (pushOrder h row u' pt i j st3) =
          (customers st3)[i := (customers st3 ! i)\<lparr>customer_sites :=
             (customer_sites (customers st3 ! i))[j := (customer_sites (customers st3 ! i) ! j)
                \<lparr>site_orders := site_orders (customer_sites (customers st3 ! i) ! j) @ [order]\<rparr>]\<rparr>]"
        and u4: "users (pushOrder h row u' pt i j st3) = users st3"
        by blast
      have C4: "findIndex ?pc (customers (pushOrder h row u' pt i j st3)) = Some i"
        unfolding c4 using C3 by (simp add: findIndex_update_same)
      have n4: "customers (pushOrder h row u' pt i j st3) ! i =
          (customers st2 ! i)\<lparr>customer_sites :=
             sites'[j := (sites' ! j)\<lparr>site_orders := site_orders (sites' ! j) @ [order]\<rparr>]\<rparr>"
        unfolding c4 using i by (simp add: c3)
      have S4: "findIndex ?ps (sites'[j := (sites' ! j)\<lparr>site_orders := site_orders (sites' ! j) @ [order]\<rparr>]) = Some j"
        using S3 by (simp add: findIndex_update_same)
      from U1 U3 u4 C4 N2 S4 I3 j orderExists_snoc_new[OF n] pt show ?thesis
        by (simp add: absorbed_def customerAbsorbed_def siteAbsorbed_def n4)
    qed
    show ?thesis
      unfolding processRow_cases[OF True u c s] using sn skip push by auto
  qed
qed

lemma absorbed_importRows:
  "row \<in> set rows \<Longrightarrow> absorbed row (importRows h rows st)"
proof (induction rows arbitrary: st)
  case Nil
  then show ?case by simp
next
  case (Cons r rows)
  show ?case
  proof (cases "row \<in> set rows")
    case True
    with Cons.IH show ?thesis by simp
  next
    case False
    with Cons.prems have "row = r" by simp
    have "absorbed r (importRows h rows (processRow h r st))"
      by (rule absorbed_ext[OF processRow_absorbs importRows_ext])
    with \<open>row = r\<close> show ?thesis by simp
  qed
qed

lemma importRows_absorbed_fix:
  "(\<And>row. row \<in> set rows \<Longrightarrow> absorbed row st) \<Longrightarrow> importRows h rows st = st"
  by (induction rows) (simp_all add: absorbed_fix)

lemma absorbed_save: "absorbed row (saveUsers (saveCustomers st)) = absorbed row st"
proof -
  have "users (saveUsers (saveCustomers st)) = users st"
    and "customers (saveUsers (saveCustomers st)) = customers st"
    by (simp_all add: saveUsers_def saveCustomers_def)
  then show ?thesis by (simp add: absorbed_def cong: option.case_cong)
qed

lemma importRows_twice:
  "importRows h' rows (saveUsers (saveCustomers (importRows h rows st))) =
     saveUsers (saveCustomers (importRows h rows st))"
  by (rule importRows_absorbed_fix) (simp add: absorbed_save absorbed_importRows)

text \<open>
  C1. A second import of the same CSV text, whatever identifiers and clock the host then
  supplies, leaves the customer tree of the first import as it is: every site of every
  customer has the orders it had, and no site is added.
\<close>

theorem importData_twice_no_new_order:
  "customers (snd (importData h' csvString (snd (importData h csvString st))))
     = customers (snd (importData h csvString st)) \<and>
   ordersBySite (snd (importData h' csvString (snd (importData h csvString st))))
     = ordersBySite (snd (importData h csvString st))"
proof (cases "parseCSV csvString = []")
  case True
  then show ?thesis by (simp add: importData_def)
next
  case False
  then show ?thesis
    by (simp add: importData_def Let_def importRows_twice ordersBySite_def)
       (simp add: saveUsers_def saveCustomers_def)
qed

lemma map_update_same: "f y = f (xs ! i) \<Longrightarrow> map f (xs[i := y]) = map f xs"
proof (induction xs arbitrary: i)
  case Nil
  then show ?case by simp
next
  case (Cons a xs)
  then show ?case by (cases i) auto
qed

lemma resolveUser_orders:
  assumes "resolveUser h row st = (user, st1)"
  shows "allOrders st1 = allOrders st \<and> targetOrders row st1 = targetOrders row st"
  using resolveUser_frame[OF assms] by (simp add: allOrders_def targetOrders_def cong: option.case_cong)

lemma resolveCustomer_orders:
  assumes "resolveCustomer h row st = (i, st2)"
  shows "allOrders st2 = allOrders st \<and>
         (case findIndex (\<lambda>s. sameText (site_name s) (orEmpty (row ''SiteName'')))
                  (customer_sites (customers st2 ! i)) of
             None \<Rightarrow> []
           | Some j \<Rightarrow> site_orders (customer_sites (customers st2 ! i) ! j)) = targetOrders row st"
proof (cases "findIndex (\<lambda>c. sameText (customer_name c) (orEmpty (row ''CustomerName''))) (customers st)")
  case None
  with assms show ?thesis
    by (auto simp: resolveCustomer_def Let_def allOrders_def targetOrders_def ordersOfCustomer_def cong: option.case_cong)
next
  case (Some k)
  from findIndex_SomeD[OF Some] have k: "k < length (customers st)" by simp
  show ?thesis
  proof (cases "truthy (row ''CustomerNotes'') \<and> customer_notes (customers st ! k) = []")
    case True
    with assms Some have i: "i = k"
      and c: "customers st2 = (customers st)[k := (customers st ! k)\<lparr>customer_notes := orEmpty (row ''CustomerNotes'')\<rparr>]"
      by (auto simp: resolveCustomer_def updateCustomer_def Let_def)
    have "map ordersOfCustomer (customers st2) = map ordersOfCustomer (customers st)"
      unfolding c by (rule map_update_same) (simp add: ordersOfCustomer_def)
    moreover have "customer_sites (customers st2 ! i) = customer_sites (customers st ! k)"
      unfolding c i using k by simp
    ultimately show ?thesis using Some by (simp add: allOrders_def targetOrders_def cong: option.case_cong)
  next
    case False
    with assms Some have "i = k" and "st2 = st"
      by (auto simp: resolveCustomer_def Let_def)
    with Some show ?thesis by (simp add: targetOrders_def cong: option.case_cong)
  qed
qed

lemma resolveSite_orders:
  assumes "resolveSite h row i st = (j, st3)" and i: "i < length (customers st)"
  shows "allOrders st3 = allOrders st \<and>
         site_orders (customer_sites (customers st3 ! i) ! j) =
         (case findIndex (\<lambda>s. sameText (site_name s) (orEmpty (row ''SiteName'')))
                  (customer_sites (customers st ! i)) of
             None \<Rightarrow> []
           | Some j \<Rightarrow> site_orders (customer_sites (customers st ! i) ! j))"
proof (cases "findIndex (\<lambda>s. sameText (site_name s) (orEmpty (row ''SiteName'')))
                (customer_sites (customers st ! i))")
  case None
  let ?new = "\<lparr>site_id = randomUUID h (calls st), site_name = orEmpty (row ''SiteName''),
               site_generalInfo = orEmpty (row ''SiteGeneralInfo''), site_generalInfoFiles = [],
               site_orders = []\<rparr>"
  from assms None have j: "j = length (customer_sites (customers st ! i))"
    and c: "customers st3 = (customers st)[i := (customers st ! i)
              \<lparr>customer_sites := customer_sites (customers st ! i) @ [?new]\<rparr>]"
    by (auto simp: resolveSite_def updateCustomer_def Let_def)
  have "map ordersOfCustomer (customers st3) = map ordersOfCustomer (customers st)"
    unfolding c by (rule map_update_same) (simp add: ordersOfCustomer_def)
  moreover have "site_orders (customer_sites (customers st3 ! i) ! j) = []"
    unfolding c j using i by simp
  ultimately show ?thesis using None by (simp add: allOrders_def)
next
  case (Some k)
  let ?sites = "customer_sites (customers st ! i)"
  from findIndex_SomeD[OF Some] have k: "k < length ?sites" by simp
  show ?thesis
  proof (cases "truthy (row ''SiteGeneralInfo'') \<and> site_generalInfo (?sites ! k) = []")
    case True
    let ?s' = "(?sites ! k)\<lparr>site_generalInfo := orEmpty (row ''SiteGeneralInfo'')\<rparr>"
    from assms Some True have j: "j = k"
      and c: "customers st3 = (customers st)[i := (customers st ! i)\<lparr>customer_sites := ?sites[k := ?s']\<rparr>]"
      by (auto simp: resolveSite_def updateSite_def updateCustomer_def Let_def)
    have "map site_orders (?sites[k := ?s']) = map site_orders ?sites"
      by (rule map_update_same) simp
    then have "map ordersOfCustomer (customers st3) = map ordersOfCustomer (customers st)"
      unfolding c by (intro map_update_same) (simp add: ordersOfCustomer_def)
    moreover have "site_orders (customer_sites (customers st3 ! i) ! j) = site_orders (?sites ! k)"
      unfolding c j using i k by simp
    ultimately show ?thesis using Some by (simp add: allOrders_def)
  next
    case False
    with assms Some have "j = k" and "st3 = st"
      by (auto simp: resolveSite_def Let_def)
    with Some show ?thesis by simp
  qed
qed

lemma partTypeOf_None_iff:
  "partTypeOf p = None \<longleftrightarrow> toLowerCase p \<noteq> ''huisseries'' \<and> toLowerCase p \<noteq> ''portes''"
  by (simp add: partTypeOf_def)

lemma processRow_orders:
  fixes h row st
  defines "st' \<equiv> processRow h row st"
  defines "pushes \<equiv> \<lambda>pt. truthy (row ''CustomerName'') \<and> truthy (row ''SiteName'') \<and>
      truthy (row ''OrderAssignedUser'') \<and> truthy (row ''OrderPart'') \<and> truthy (row ''OrderNumber'') \<and>
      partTypeOf (orEmpty (row ''OrderPart'')) = Some pt \<and>
      \<not> orderExists pt (orEmpty (row ''OrderNumber'')) (targetOrders row st)"
  shows "(pushes pt \<longrightarrow> (\<exists>order. newOrderFor row pt order \<and>
            targetOrders row st' = targetOrders row st @ [order])) \<and>
         ((\<forall>pt. \<not> pushes pt) \<longrightarrow> allOrders st' = allOrders st \<and> targetOrders row st' = targetOrders row st)"
proof (cases "truthy (row ''CustomerName'')")
  case False
  then show ?thesis by (simp add: st'_def pushes_def processRow_def)
next
  case True
  let ?pc = "\<lambda>c. sameText (customer_name c) (orEmpty (row ''CustomerName''))"
  let ?ps = "\<lambda>s. sameText (site_name s) (orEmpty (row ''SiteName''))"
  obtain user st1 where u: "resolveUser h row st = (user, st1)"
    by (cases "resolveUser h row st") auto
  obtain i st2 where c: "resolveCustomer h row st1 = (i, st2)"
    by (cases "resolveCustomer h row st1") auto
  obtain j st3 where s: "resolveSite h row i st2 = (j, st3)"
    by (cases "resolveSite h row i st2") auto
  have un: "user = None \<longleftrightarrow> \<not> truthy (row ''OrderAssignedUser'')"
    using u resolveUser_found[OF u] by (auto simp: resolveUser_def Let_def)
  have C2: "findIndex ?pc (customers st2) = Some i"
    using resolveCustomer_found[OF c] by simp
  from findIndex_SomeD[OF C2] have i: "i < length (customers st2)" by simp
  have a2: "allOrders st2 = allOrders st"
    and t2: "(case findIndex ?ps (customer_sites (customers st2 ! i)) of None \<Rightarrow> []
             | Some j \<Rightarrow> site_orders (customer_sites (customers st2 ! i) ! j)) = targetOrders row st"
    using resolveUser_orders[OF u] resolveCustomer_orders[OF c] by simp_all
  have T2: "targetOrders row st2 = targetOrders row st"
    using C2 t2 by (simp add: targetOrders_def cong: option.case_cong)
  have a3: "allOrders st3 = allOrders st"
    and o3: "site_orders (customer_sites (customers st3 ! i) ! j) = targetOrders row st"
    using resolveSite_orders[OF s i] a2 t2 by simp_all
  from resolveSite_shape[OF s] obtain sites' where
    c3: "customers st3 = (customers st2)[i := (customers st2 ! i)\<lparr>customer_sites := sites'\<rparr>]"
    and S3: "findIndex ?ps sites' = Some j"
    by blast
  from findIndex_SomeD[OF S3] have j: "j < length sites'" by simp
  have n3: "customers st3 ! i = (customers st2 ! i)\<lparr>customer_sites := sites'\<rparr>"
    unfolding c3 using i by simp
  have C3: "findIndex ?pc (customers st3) = Some i"
    unfolding c3 using C2 by (simp add: findIndex_update_same)
  have T3: "targetOrders row st3 = targetOrders row st"
    using C3 S3 o3 by (simp add: targetOrders_def n3 cong: option.case_cong)
  have P: "\<exists>order. newOrderFor row pt order \<and>
      targetOrders row (pushOrder h row u' pt i j st3) = targetOrders row st @ [order]" for u'
  proof -
    from pushOrder_shape[of h row u' pt i j st3] obtain order where
      n: "newOrderFor row pt order"
      and c4: "customers (pushOrder h row u' pt i j st3) =
        (customers st3)[i := (customers st3 ! i)\<lparr>customer_sites :=
           (customer_sites (customers st3 ! i))[j := (customer_sites (customers st3 ! i) ! j)
              \<lparr>site_orders := site_orders (customer_sites (customers st3 ! i) ! j) @ [order]\<rparr>]\<rparr>]"
      by blast
    have C4: "findIndex ?pc (customers (pushOrder h row u' pt i j st3)) = Some i"
      unfolding c4 using C3 by (simp add: findIndex_update_same)
    have n4: "customers (pushOrder h row u' pt i j st3) ! i =
        (customers st2 ! i)\<lparr>customer_sites :=
           sites'[j := (sites' ! j)\<lparr>site_orders := site_orders (sites' ! j) @ [order]\<rparr>]\<rparr>"
      unfolding c4 using i by (simp add: c3)
    have S4: "findIndex ?ps (sites'[j := (sites' ! j)\<lparr>site_orders := site_orders (sites' ! j) @ [order]\<rparr>]) = Some j"
      using S3 by (simp add: findIndex_update_same)
    from o3 have "site_orders (sites' ! j) = targetOrders row st" by (simp add: n3)
    with C4 S4 j have "targetOrders row (pushOrder h row u' pt i j st3) = targetOrders row st @ [order]"
      by (simp add: targetOrders_def n4 cong: option.case_cong)
    with n show ?thesis by blast
  qed
  show ?thesis
  proof (cases "\<exists>pt. pushes pt")
    case False
    then have "st' = st2 \<or> st' = st3"
      unfolding st'_def processRow_cases[OF True u c s] pushes_def
      using True un o3 by (auto split: if_splits)
    with False a2 a3 T2 T3 show ?thesis by auto
  next
    case ex: True
    show ?thesis
    proof (cases "pushes pt")
      case False
      with ex show ?thesis by blast
    next
      case p: True
      then have "st' = pushOrder h row (the user) pt i j st3"
        unfolding st'_def processRow_cases[OF True u c s] pushes_def
        using un o3 by auto
      with P[of "the user"] ex show ?thesis by blast
    qed
  qed
qed

lemma roleFor_pascalCase:
  "roleFor userRole =
     (if pascalCase (trim (orEmpty userRole)) = ''Admin'' then Admin
      else if pascalCase (trim (orEmpty userRole)) = ''Editor'' then Editor
      else Viewer)"
proof (cases userRole)
  case None
  then show ?thesis
    by (simp add: roleFor_def truthy_def orEmpty_def pascalCase_def trim_def toUpperCase_def toLowerCase_def)
next
  case (Some s)
  show ?thesis
  proof (cases "trim s = []")
    case True
    with Some show ?thesis
      by (simp add: roleFor_def truthy_def orEmpty_def pascalCase_def toUpperCase_def toLowerCase_def)
  next
    case False
    with Some show ?thesis
      by (simp add: roleFor_def truthy_def orEmpty_def pascalCase_def Let_def)
  qed
qed

lemma processRow_users:
  assumes "truthy (row ''CustomerName'')"
  shows "users (processRow h row st) = users (snd (resolveUser h row st))"
proof -
  obtain user st1 where u: "resolveUser h row st = (user, st1)"
    by (cases "resolveUser h row st") auto
  obtain i st2 where c: "resolveCustomer h row st1 = (i, st2)"
    by (cases "resolveCustomer h row st1") auto
  obtain j st3 where s: "resolveSite h row i st2 = (j, st3)"
    by (cases "resolveSite h row i st2") auto
  have "users st2 = users st1" using resolveCustomer_frame[OF c] by simp
  moreover have "users st3 = users st2" using resolveSite_frame[OF s] by simp
  moreover have "users (pushOrder h row u' pt i j st3) = users st3" for u' pt
    using pushOrder_shape[of h row u' pt i j st3] by simp
  ultimately show ?thesis
    unfolding processRow_cases[OF assms u c s] using u by simp
qed

text \<open>
  C7 (as amended). A row with a non-empty \<open>CustomerName\<close> whose non-empty
  \<open>OrderAssignedUser\<close> is the name of no user, up to case, appends exactly one user. Its
  name is the assigned name, its email the lower-cased name with every white-space
  character replaced by a dot, at \<open>example.com\<close>, its password the placeholder, and its
  role the trimmed \<open>UserRole\<close> in Pascal case when that is Admin, Editor or Viewer, and
  Viewer otherwise.
\<close>

theorem processRow_synthesizes_user:
  assumes "truthy (row ''CustomerName'')"
    and "truthy (row ''OrderAssignedUser'')"
    and "\<not> nameTaken (orEmpty (row ''OrderAssignedUser'')) (users st)"
  shows "\<exists>newUser.
           users (processRow h row st) = users st @ [newUser] \<and>
           user_name newUser = orEmpty (row ''OrderAssignedUser'') \<and>
           user_email newUser =
             map (\<lambda>c. if isWhiteSpace c then CHR ''.'' else c)
                 (toLowerCase (orEmpty (row ''OrderAssignedUser''))) @ ''@example.com'' \<and>
           user_role newUser =
             (if pascalCase (trim (orEmpty (row ''UserRole''))) = ''Admin'' then Admin
              else if pascalCase (trim (orEmpty (row ''UserRole''))) = ''Editor'' then Editor
              else Viewer) \<and>
           user_password newUser = Some ''password''"
proof -
  from assms(3) have "find (\<lambda>u. sameText (user_name u) (orEmpty (row ''OrderAssignedUser''))) (users st) = None"
    by (simp add: nameTaken_def find_None_list_ex)
  with assms(2) have "users (snd (resolveUser h row st)) = users st @
      [\<lparr>user_id = randomUUID h (calls st), user_name = orEmpty (row ''OrderAssignedUser''),
        user_email = emailFor (orEmpty (row ''OrderAssignedUser'')),
        user_role = roleFor (row ''UserRole''), user_password = Some ''password''\<rparr>]"
    by (simp add: resolveUser_def pushUser_def Let_def)
  with processRow_users[where row=row and h=h and st=st] assms(1) show ?thesis
    by (simp add: emailFor_def roleFor_pascalCase)
qed

lemma seed_no_Bob: "\<not> nameTaken ''Bob'' (users seedState)"
  by code_simp

lemma seed_no_Jean: "\<not> nameTaken ''Jean Dupont'' (users seedState)"
  by code_simp

lemma pascal_editor: "pascalCase (trim ''eDITOR'') = ''Editor''"
  by code_simp

lemma email_jean:
  "map (\<lambda>c. if isWhiteSpace c then CHR ''.'' else c) (toLowerCase ''Jean Dupont'') @ ''@example.com''
     = ''jean.dupont@example.com''"
  by code_simp

theorem processRow_synthesizes_user_witness:
  "truthy (sampleRow7b ''CustomerName'') \<and> truthy (sampleRow7b ''OrderAssignedUser'') \<and>
   \<not> nameTaken (orEmpty (sampleRow7b ''OrderAssignedUser'')) (users seedState) \<and>
   (\<exists>newUser. users (processRow sampleHost sampleRow7b seedState) = users seedState @ [newUser] \<and>
      user_name newUser = ''Jean Dupont'' \<and> user_email newUser = ''jean.dupont@example.com'' \<and>
      user_role newUser = Editor)"
proof -
  have a: "truthy (sampleRow7b ''CustomerName'')" and b: "truthy (sampleRow7b ''OrderAssignedUser'')"
    by (simp_all add: sampleRow7b_def truthy_def)
  have c: "\<not> nameTaken (orEmpty (sampleRow7b ''OrderAssignedUser'')) (users seedState)"
    using seed_no_Jean by (simp add: sampleRow7b_def orEmpty_def)
  have d: "orEmpty (sampleRow7b ''OrderAssignedUser'') = ''Jean Dupont''"
    and e: "orEmpty (sampleRow7b ''UserRole'') = ''eDITOR''"
    by (simp_all add: sampleRow7b_def orEmpty_def)
  from processRow_synthesizes_user[where row=sampleRow7b and st=seedState and h=sampleHost] a b c
  show ?thesis
    unfolding d e pascal_editor email_jean by auto
qed

text \<open>
  The claim as stated speaks of every row. A row with an empty \<open>CustomerName\<close> assigned
  to Bob, who is no user of the seeded list, leaves the user list as it is.
\<close>

theorem processRow_skipped_row_no_user:
  "\<not> nameTaken (orEmpty (sampleRow7 ''OrderAssignedUser'')) (users seedState) \<and>
   users (processRow sampleHost sampleRow7 seedState) = users seedState"
  using seed_no_Bob by (simp add: sampleRow7_def orEmpty_def processRow_def truthy_def)

lemma partTypeOf_Huisseries: "partTypeOf ''Huisseries'' = Some frames"
  by code_simp

text \<open>
  C8. A row for the part \<open>Huisseries\<close> with number \<open>F-001\<close> and the status text of a sent
  order, with customer, site and assigned user given and no frames part of that number in
  the site it resolves to, appends one order to that site: the part is in the frames slot,
  the doors slot is null, and the part counts as sent. For any row, either no order is
  created, or one order is appended to the site of the row and its part counts as sent
  exactly when the status text is that text. A row whose \<open>OrderPart\<close> is, up to case,
  neither \<open>huisseries\<close> nor \<open>portes\<close> creates no order.
\<close>

theorem processRow_part_type_and_status:
  "(truthy (row ''CustomerName'') \<and> truthy (row ''SiteName'') \<and> truthy (row ''OrderAssignedUser'') \<and>
    row ''OrderPart'' = Some ''Huisseries'' \<and> row ''OrderNumber'' = Some ''F-001'' \<and>
    row ''OrderStatus'' = Some sent \<and>
    \<not> orderExists frames ''F-001'' (targetOrders row st)
    \<longrightarrow> (\<exists>order part.
           targetOrders row (processRow h row st) = targetOrders row st @ [order] \<and>
           order_frames order = Some part \<and> order_doors order = None \<and>
           part_isSent part \<and> part_number part = ''F-001'')) \<and>
   (allOrders (processRow h row st) = allOrders st \<or>
    (\<exists>partType order part.
        targetOrders row (processRow h row st) = targetOrders row st @ [order] \<and>
        partOf partType order = Some part \<and>
        (part_isSent part \<longleftrightarrow> row ''OrderStatus'' = Some sent))) \<and>
   (toLowerCase (orEmpty (row ''OrderPart'')) \<noteq> ''huisseries'' \<and>
    toLowerCase (orEmpty (row ''OrderPart'')) \<noteq> ''portes''
    \<longrightarrow> allOrders (processRow h row st) = allOrders st)"
proof (intro conjI impI)
  assume a: "truthy (row ''CustomerName'') \<and> truthy (row ''SiteName'') \<and> truthy (row ''OrderAssignedUser'') \<and>
    row ''OrderPart'' = Some ''Huisseries'' \<and> row ''OrderNumber'' = Some ''F-001'' \<and>
    row ''OrderStatus'' = Some sent \<and>
    \<not> orderExists frames ''F-001'' (targetOrders row st)"
  then have "truthy (row ''CustomerName'') \<and> truthy (row ''SiteName'') \<and>
      truthy (row ''OrderAssignedUser'') \<and> truthy (row ''OrderPart'') \<and> truthy (row ''OrderNumber'') \<and>
      partTypeOf (orEmpty (row ''OrderPart'')) = Some frames \<and>
      \<not> orderExists frames (orEmpty (row ''OrderNumber'')) (targetOrders row st)"
    by (simp add: truthy_def orEmpty_def partTypeOf_Huisseries)
  with processRow_orders[where row=row and st=st and h=h and pt=frames]
  obtain order where "newOrderFor row frames order"
    and "targetOrders row (processRow h row st) = targetOrders row st @ [order]"
    by blast
  with a show "\<exists>order part.
           targetOrders row (processRow h row st) = targetOrders row st @ [order] \<and>
           order_frames order = Some part \<and> order_doors order = None \<and>
           part_isSent part \<and> part_number part = ''F-001''"
    by (auto simp: newOrderFor_def partOf_def orEmpty_def)
next
  show "allOrders (processRow h row st) = allOrders st \<or>
    (\<exists>partType order part.
        targetOrders row (processRow h row st) = targetOrders row st @ [order] \<and>
        partOf partType order = Some part \<and>
        (part_isSent part \<longleftrightarrow> row ''OrderStatus'' = Some sent))"
  proof (cases "\<exists>pt. truthy (row ''CustomerName'') \<and> truthy (row ''SiteName'') \<and>
      truthy (row ''OrderAssignedUser'') \<and> truthy (row ''OrderPart'') \<and> truthy (row ''OrderNumber'') \<and>
      partTypeOf (orEmpty (row ''OrderPart'')) = Some pt \<and>
      \<not> orderExists pt (orEmpty (row ''OrderNumber'')) (targetOrders row st)")
    case False
    with processRow_orders[where row=row and st=st and h=h] show ?thesis by blast
  next
    case True
    then obtain pt where "truthy (row ''CustomerName'') \<and> truthy (row ''SiteName'') \<and>
      truthy (row ''OrderAssignedUser'') \<and> truthy (row ''OrderPart'') \<and> truthy (row ''OrderNumber'') \<and>
      partTypeOf (orEmpty (row ''OrderPart'')) = Some pt \<and>
      \<not> orderExists pt (orEmpty (row ''OrderNumber'')) (targetOrders row st)"
      by blast
    with processRow_orders[where row=row and st=st and h=h and pt=pt]
    obtain order where "newOrderFor row pt order"
      and "targetOrders row (processRow h row st) = targetOrders row st @ [order]"
      by blast
    then show ?thesis by (auto simp: newOrderFor_def)
  qed
next
  assume "toLowerCase (orEmpty (row ''OrderPart'')) \<noteq> ''huisseries'' \<and>
    toLowerCase (orEmpty (row ''OrderPart'')) \<noteq> ''portes''"
  then have "partTypeOf (orEmpty (row ''OrderPart'')) = None"
    by (simp add: partTypeOf_None_iff)
  with processRow_orders[where row=row and st=st and h=h]
  show "allOrders (processRow h row st) = allOrders st" by simp
qed

lemma sampleRow8b_part:
  "toLowerCase (orEmpty (sampleRow8b ''OrderPart'')) \<noteq> ''huisseries'' \<and>
   toLowerCase (orEmpty (sampleRow8b ''OrderPart'')) \<noteq> ''portes''"
proof -
  have "toLowerCase ''Fenetres'' \<noteq> ''huisseries'' \<and> toLowerCase ''Fenetres'' \<noteq> ''portes''"
    by code_simp
  then show ?thesis by (simp add: sampleRow8b_def orEmpty_def)
qed

theorem processRow_part_type_and_status_witness:
  "(truthy (sampleRow8 ''CustomerName'') \<and> truthy (sampleRow8 ''SiteName'') \<and>
    truthy (sampleRow8 ''OrderAssignedUser'') \<and>
    sampleRow8 ''OrderPart'' = Some ''Huisseries'' \<and> sampleRow8 ''OrderNumber'' = Some ''F-001'' \<and>
    sampleRow8 ''OrderStatus'' = Some sent \<and>
    \<not> orderExists frames ''F-001'' (targetOrders sampleRow8 seedState)) \<and>
   (\<exists>order part.
       targetOrders sampleRow8 (processRow sampleHost sampleRow8 seedState) = [order] \<and>
       order_frames order = Some part \<and> order_doors order = None \<and>
       part_isSent part \<and> part_number part = ''F-001'') \<and>
   (toLowerCase (orEmpty (sampleRow8b ''OrderPart'')) \<noteq> ''huisseries'' \<and>
    toLowerCase (orEmpty (sampleRow8b ''OrderPart'')) \<noteq> ''portes'') \<and>
   allOrders (processRow sampleHost sampleRow8b seedState) = []"
proof -
  have t: "targetOrders sampleRow8 seedState = []" and o: "allOrders seedState = []"
    by (simp_all add: targetOrders_def allOrders_def seedState_def)
  have a: "truthy (sampleRow8 ''CustomerName'') \<and> truthy (sampleRow8 ''SiteName'') \<and>
    truthy (sampleRow8 ''OrderAssignedUser'') \<and>
    sampleRow8 ''OrderPart'' = Some ''Huisseries'' \<and> sampleRow8 ''OrderNumber'' = Some ''F-001'' \<and>
    sampleRow8 ''OrderStatus'' = Some sent \<and>
    \<not> orderExists frames ''F-001'' (targetOrders sampleRow8 seedState)"
    unfolding t by (simp add: sampleRow8_def truthy_def orderExists_def)
  from processRow_part_type_and_status[where row=sampleRow8 and st=seedState and h=sampleHost] a
  have b: "\<exists>order part.
       targetOrders sampleRow8 (processRow sampleHost sampleRow8 seedState) = [order] \<and>
       order_frames order = Some part \<and> order_doors order = None \<and>
       part_isSent part \<and> part_number part = ''F-001''"
    unfolding t by simp
  from processRow_part_type_and_status[where row=sampleRow8b and st=seedState and h=sampleHost]
    sampleRow8b_part
  have c: "allOrders (processRow sampleHost sampleRow8b seedState) = []"
    unfolding o by blast
  from a b c sampleRow8b_part show ?thesis by blast
qed

lemma importData_customers:
  "customers (snd (importData h csvString st)) = customers (importRows h (parseCSV csvString) st)"
  by (cases "parseCSV csvString = []")
     (simp_all add: importData_def Let_def saveUsers_def saveCustomers_def)

text \<open>
  C9. An import keeps every customer that was there at its position, with its notes when
  they were not empty, and every site of such a customer at its position, with its general
  information when that was not empty. Notes and general information therefore change only
  where they were empty.
\<close>

theorem importData_backfill_nondestructive:
  assumes "i < length (customers st)"
  shows "i < length (customers (snd (importData h csvString st))) \<and>
         (customer_notes (customers st ! i) \<noteq> [] \<longrightarrow>
            customer_notes (customers (snd (importData h csvString st)) ! i)
              = customer_notes (customers st ! i)) \<and>
         (\<forall>j < length (customer_sites (customers st ! i)).
            j < length (customer_sites (customers (snd (importData h csvString st)) ! i)) \<and>
            (site_generalInfo (customer_sites (customers st ! i) ! j) \<noteq> [] \<longrightarrow>
               site_generalInfo (customer_sites (customers (snd (importData h csvString st)) ! i) ! j)
                 = site_generalInfo (customer_sites (customers st ! i) ! j)))"
proof -
  let ?st' = "importRows h (parseCSV csvString) st"
  have "listExt customerExt (customers st) (customers ?st')"
    using importRows_ext[of st h "parseCSV csvString"] by (simp add: stateExt_def)
  from listExt_nth[OF this assms]
  have i': "i < length (customers ?st')" and c: "customerExt (customers st ! i) (customers ?st' ! i)"
    by simp_all
  from c have s: "listExt siteExt (customer_sites (customers st ! i)) (customer_sites (customers ?st' ! i))"
    by (simp add: customerExt_def)
  have "j < length (customer_sites (customers ?st' ! i)) \<and>
        (site_generalInfo (customer_sites (customers st ! i) ! j) \<noteq> [] \<longrightarrow>
           site_generalInfo (customer_sites (customers ?st' ! i) ! j)
             = site_generalInfo (customer_sites (customers st ! i) ! j))"
    if "j < length (customer_sites (customers st ! i))" for j
    using listExt_nth[OF s that] by (simp add: siteExt_def)
  with i' c show ?thesis
    unfolding importData_customers by (simp add: customerExt_def)
qed

theorem importData_backfill_nondestructive_witness:
  "0 < length (customers sampleState9) \<and>
   customer_notes (customers sampleState9 ! 0) \<noteq> [] \<and>
   customer_notes (customers (snd (importData sampleHost sampleCsv9 sampleState9)) ! 0) = ''pays late'' \<and>
   0 < length (customer_sites (customers sampleState9 ! 0)) \<and>
   site_generalInfo (customer_sites (customers sampleState9 ! 0) ! 0) \<noteq> [] \<and>
   site_generalInfo (customer_sites (customers (snd (importData sampleHost sampleCsv9 sampleState9)) ! 0) ! 0)
     = ''second floor''"
proof -
  have a: "0 < length (customers sampleState9)"
    by (simp add: sampleState9_def)
  from importData_backfill_nondestructive[OF a, of sampleHost sampleCsv9]
  show ?thesis by (simp add: sampleState9_def)
qed

lemma not_list_ex_notin:
  "\<not> list_ex (\<lambda>u. sameText (f u) x) us \<Longrightarrow> toLowerCase x \<notin> set (map (\<lambda>u. toLowerCase (f u)) us)"
  by (auto simp: list_ex_iff sameText_def)

lemma pushUser_unique:
  assumes "\<not> nameTaken name (users st)" and "\<not> emailTaken email (users st)"
    and "namesUnique (users st)" and "emailsUnique (users st)"
  shows "namesUnique (users (snd (pushUser h name email password role st))) \<and>
         emailsUnique (users (snd (pushUser h name email password role st)))"
  using assms not_list_ex_notin[of user_name name "users st"]
    not_list_ex_notin[of user_email email "users st"]
  by (simp add: pushUser_def Let_def namesUnique_def emailsUnique_def nameTaken_def emailTaken_def)

lemma addUser_unique:
  assumes "namesUnique (users st)" and "emailsUnique (users st)"
  shows "namesUnique (users (snd (addUser h name email password role st))) \<and>
         emailsUnique (users (snd (addUser h name email password role st)))"
proof (cases "nameTaken name (users st) \<or> emailTaken email (users st)")
  case True
  with assms show ?thesis
    by (auto simp: addUser_def nameTaken_def emailTaken_def)
next
  case False
  with pushUser_unique[of name st email h password role] assms
  have "namesUnique (users (saveUsers (snd (pushUser h name email password role st)))) \<and>
        emailsUnique (users (saveUsers (snd (pushUser h name email password role st))))"
    by (simp add: saveUsers_def)
  with False show ?thesis
    by (cases "pushUser h name email password role st")
       (simp add: addUser_def nameTaken_def emailTaken_def)
qed

lemma signup_unique:
  assumes "namesUnique (users st)" and "emailsUnique (users st)"
  shows "namesUnique (users (snd (signup h name email password st))) \<and>
         emailsUnique (users (snd (signup h name email password st)))"
proof (cases "nameTaken name (users st) \<or> emailTaken email (users st)")
  case True
  with assms show ?thesis
    by (auto simp: signup_def nameTaken_def emailTaken_def)
next
  case False
  with pushUser_unique[of name st email h password Viewer] assms
  have "namesUnique (users (saveUsers (snd (pushUser h name email password Viewer st)))) \<and>
        emailsUnique (users (saveUsers (snd (pushUser h name email password Viewer st))))"
    by (simp add: saveUsers_def)
  with False show ?thesis
    by (cases "pushUser h name email password Viewer st")
       (simp add: signup_def nameTaken_def emailTaken_def)
qed

lemma resolveUser_namesUnique:
  assumes "namesUnique (users st)"
  shows "namesUnique (users (snd (resolveUser h row st)))"
proof (cases "truthy (row ''OrderAssignedUser'') \<and>
    find (\<lambda>u. sameText (user_name u) (orEmpty (row ''OrderAssignedUser''))) (users st) = None")
  case True
  then have "\<not> list_ex (\<lambda>u. sameText (user_name u) (orEmpty (row ''OrderAssignedUser''))) (users st)"
    by (simp add: find_None_list_ex)
  from not_list_ex_notin[OF this] True assms show ?thesis
    by (simp add: resolveUser_def pushUser_def Let_def namesUnique_def)
next
  case False
  with assms show ?thesis
    by (auto simp: resolveUser_def Let_def split: option.splits)
qed

lemma processRow_namesUnique:
  assumes "namesUnique (users st)"
  shows "namesUnique (users (processRow h row st))"
proof (cases "truthy (row ''CustomerName'')")
  case False
  with assms show ?thesis by (simp add: processRow_def)
next
  case True
  with processRow_users[where row=row and h=h and st=st] resolveUser_namesUnique[OF assms]
  show ?thesis by simp
qed

lemma importRows_namesUnique:
  "namesUnique (users st) \<Longrightarrow> namesUnique (users (importRows h rows st))"
  by (induction rows arbitrary: st) (simp_all add: processRow_namesUnique)

lemma importData_namesUnique:
  assumes "namesUnique (users st)"
  shows "namesUnique (users (snd (importData h csvString st)))"
  using assms importRows_namesUnique[OF assms, of h "parseCSV csvString"]
  by (simp add: importData_def Let_def saveUsers_def saveCustomers_def)

lemma seed_unique: "namesUnique (users seedState) \<and> emailsUnique (users seedState)"
  by code_simp

lemma sampleCsv2_rows: "length (parseCSV sampleCsv2) = 2"
  by code_simp

lemma sampleCsv2_emails:
  "map user_email (users (snd (importData sampleHost sampleCsv2 seedState))) =
     [''taoufik@example.com'', ''editor@example.com'', ''viewer@example.com'',
      ''a.b@example.com'', ''a.b@example.com'']"
  by code_simp

lemma sampleCsv2_names:
  "map user_name (users (snd (importData sampleHost sampleCsv2 seedState))) =
     [''taoufik'', ''Editor'', ''Viewer'', ''a b'', ''a.b'']"
  by code_simp

text \<open>
  C2. The seeded users have unique names and unique emails up to case. \<open>addUser\<close> and
  \<open>signup\<close> keep both (lemmas \<open>addUser_unique\<close>, \<open>signup_unique\<close>), and an import keeps
  the names unique. It does not keep the emails unique: the import of two rows assigned to
  \<open>a b\<close> and to \<open>a.b\<close> creates two users of email \<open>a.b@example.com\<close>, because the
  import tests the name of a new user and never its email.
\<close>

theorem importData_duplicate_email:
  "namesUnique (users seedState) \<and> emailsUnique (users seedState) \<and>
   namesUnique (users (snd (importData sampleHost sampleCsv2 seedState))) \<and>
   \<not> emailsUnique (users (snd (importData sampleHost sampleCsv2 seedState)))"
proof -
  have "\<not> emailsUnique (users (snd (importData sampleHost sampleCsv2 seedState)))"
    by code_simp
  with seed_unique importData_namesUnique[of seedState sampleHost sampleCsv2] show ?thesis by simp
qed

end
